theory Spec2Isabelle
  imports Main "HOL-Library.Word" "HOL-Library.Product_Lexorder"
begin

section \<open>Byte values (utils/bytes, utils/constants)\<close>

text \<open>
  The library passes every quantity around as a \<open>BytesData\<close>: a hex string, a byte array
  or a \<open>BN\<close> big number. The module \<open>utils/bytes\<close> that converts between them is not
  among the source files, so its functions are modelled from the specification, which
  treats a bytes-like value as one canonical byte vector (section 9) and names the
  conversions \<open>padTo32\<close>, \<open>||\<close> and \<open>mod p\<close> (section 4.G).
  A hex string and a byte array are both the byte vector they denote.
\<close>

type_synonym bytes = "8 word list"

datatype BytesData = Hex bytes | BN int

text \<open>Big-endian bytes of a natural number; zero is the single byte \<open>00\<close>.\<close>

function bytes_of_nat :: "nat \<Rightarrow> bytes" where
  "bytes_of_nat n =
     (if n < 256 then [of_nat n] else bytes_of_nat (n div 256) @ [of_nat (n mod 256)])"
  by pat_completeness auto
termination
  by (relation "measure (\<lambda>n. n)") auto

declare bytes_of_nat.simps [simp del]

text \<open>The number a big-endian byte vector denotes.\<close>

definition nat_of_bytes :: "bytes \<Rightarrow> nat" where
  "nat_of_bytes bs = foldl (\<lambda>acc b. acc * 256 + unat b) 0 bs"

text \<open>
  Modelled from the spec: \<open>bytes.hexlify\<close> (utils/bytes is missing), the canonical byte
  vector of a value. Field elements and amounts are non-negative; the byte form of a
  \<open>BN\<close> is that of its magnitude.
\<close>

fun hexlify :: "BytesData \<Rightarrow> bytes" where
  "hexlify (Hex bs) = bs"
| "hexlify (BN n) = bytes_of_nat (nat \<bar>n\<bar>)"

text \<open>
  Modelled from the spec: \<open>bytes.numberify\<close> (utils/bytes is missing), the number a value
  denotes, as a \<open>BN\<close>.
\<close>

fun numberify :: "BytesData \<Rightarrow> int" where
  "numberify (Hex bs) = int (nat_of_bytes bs)"
| "numberify (BN n) = n"

text \<open>
  Modelled from the spec: \<open>bytes.padToLength\<close> (utils/bytes is missing), \<open>padTo32\<close> of
  section 4.G: zero bytes are added on the left up to the length; a longer value is
  left as it is.
\<close>

definition padToLength :: "BytesData \<Rightarrow> nat \<Rightarrow> bytes" where
  "padToLength data len = replicate (len - length (hexlify data)) 0 @ hexlify data"

text \<open>
  Modelled from the spec: \<open>bytes.combine\<close> (utils/bytes is missing), the concatenation
  \<open>||\<close> of section 4.G.
\<close>

definition combine :: "BytesData list \<Rightarrow> bytes" where
  "combine parts = concat (map hexlify parts)"

definition SNARK_PRIME :: int where
  "SNARK_PRIME =
     21888242871839275222246405745257275088548364400416034343698204186575808495617"

definition VERSION :: int where
  "VERSION = 1"

section \<open>Errors\<close>

text \<open>
  Every exception the modelled code raises, as a value. \<open>TypeError\<close> is JavaScript's own:
  reading a property of \<open>undefined\<close>. \<open>InvalidPoint\<close> and \<open>MalformedNote\<close> are the
  failures of the curve and note primitives (section 7 of the specification), the
  witness and prover failures those of the external prover.
\<close>

datatype error =
    ProofGenerationFailed
  | WitnessGenerationFailed
  | Groth16ProveFailed
  | InvalidPoint
  | MalformedNote
  | MalformedProof
  | TypeError
  | WrongEncryptionKey
  | TooManyOutputs
  | TokenIDMismatch nat
  | WalletBalanceTooLow
  | NeedsConsolidation
  | WithdrawAddressNotSet
  | WithdrawShouldntBeSet

section \<open>Prover adapter\<close>

datatype Circuits = erc20small | erc20large

record Artifacts =
  zkey :: bytes
  wasm :: bytes
  vkey :: bytes

text \<open>The \<open>Proof\<close> type of the library: three arrays of bytes-like values.\<close>

record Proof =
  proof_a :: "BytesData list"
  proof_b :: "BytesData list list"
  proof_c :: "BytesData list"

record ERC20PrivateInputs =
  adaptID :: BytesData
  tokenField :: BytesData
  depositAmount :: BytesData
  withdrawAmount :: BytesData
  outputTokenField :: BytesData
  outputEthAddress :: BytesData
  randomIn :: "BytesData list"
  valuesIn :: "BytesData list"
  spendingKeys :: "BytesData list"
  treeNumber :: BytesData
  merkleRoot :: BytesData
  nullifiers :: "BytesData list"
  pathElements :: "BytesData list list"
  pathIndices :: "BytesData list"
  recipientPK :: "BytesData list"
  randomOut :: "BytesData list"
  valuesOut :: "BytesData list"
  commitmentsOut :: "BytesData list"
  ciphertextHash :: BytesData

record ERC20PublicInputs =
  pub_adaptID :: BytesData
  pub_depositAmount :: BytesData
  pub_withdrawAmount :: BytesData
  pub_outputTokenField :: BytesData
  pub_outputEthAddress :: BytesData
  pub_treeNumber :: BytesData
  pub_merkleRoot :: BytesData
  pub_nullifiers :: "BytesData list"
  pub_commitmentsOut :: "BytesData list"
  pub_ciphertextHash :: BytesData

text \<open>
  The proof object of the Groth16 library: affine coordinates, each a decimal string,
  here the integer it denotes (\<open>new BN(s)\<close> reads it, \<open>toString(10)\<close> prints it).
\<close>

record Groth16Proof =
  pi_a :: "int \<times> int"
  pi_b :: "(int \<times> int) \<times> (int \<times> int)"
  pi_c :: "int \<times> int"

text \<open>An element of the formatted circuit inputs: a decimal or a \<open>0x\<close> hex string.\<close>

datatype CircuitValue = Decimal int | HexString bytes

record FormattedCircuitInputs =
  f_hashOfInputs :: CircuitValue
  f_adaptID :: CircuitValue
  f_tokenField :: CircuitValue
  f_depositAmount :: CircuitValue
  f_withdrawAmount :: CircuitValue
  f_outputTokenField :: CircuitValue
  f_outputEthAddress :: CircuitValue
  f_randomIn :: "CircuitValue list"
  f_valuesIn :: "CircuitValue list"
  f_spendingKeys :: "CircuitValue list"
  f_treeNumber :: CircuitValue
  f_merkleRoot :: CircuitValue
  f_nullifiers :: "CircuitValue list"
  f_pathElements :: "CircuitValue list list"
  f_pathIndices :: "CircuitValue list"
  f_recipientPK :: "CircuitValue list list"
  f_randomOut :: "CircuitValue list"
  f_valuesOut :: "CircuitValue list"
  f_commitmentsOut :: "CircuitValue list"
  f_ciphertextHash :: CircuitValue


text \<open>
  The external collaborators of the prover: the artifacts getter handed to the
  constructor, SHA-256, the Baby-Jubjub point decoder, the native witness calculator
  and the two Groth16 primitives. The witness calculator and the prover can fail.
\<close>

record prover_env =
  artifactsGetter :: "Circuits \<Rightarrow> Artifacts"
  sha256 :: "bytes \<Rightarrow> bytes"
  unpackPoint :: "BytesData \<Rightarrow> (BytesData \<times> BytesData) option"
  native_prove :: "FormattedCircuitInputs \<Rightarrow> bytes option"
  groth16_prove :: "bytes \<Rightarrow> bytes \<Rightarrow> Groth16Proof option"
  groth16_verify :: "bytes \<Rightarrow> bytes list \<Rightarrow> Groth16Proof \<Rightarrow> bool"

text \<open>\<open>Prover.hashInputs\<close>.\<close>

definition hashInputs :: "(bytes \<Rightarrow> bytes) \<Rightarrow> ERC20PublicInputs \<Rightarrow> bytes" where
  "hashInputs sha inputs =
     (let preimage = combine (map (\<lambda>el. Hex (padToLength el 32))
            ([pub_adaptID inputs,
              pub_depositAmount inputs,
              pub_withdrawAmount inputs,
              pub_outputTokenField inputs,
              pub_outputEthAddress inputs,
              pub_treeNumber inputs,
              pub_merkleRoot inputs]
             @ pub_nullifiers inputs
             @ pub_commitmentsOut inputs
             @ [pub_ciphertextHash inputs]))
      in hexlify (BN (numberify (Hex (sha preimage)) mod SNARK_PRIME)))"

text \<open>
  The public-input hash as the specification writes it (section 4.G): the padded
  fields joined one after the other, hashed, and reduced modulo the SNARK prime.
\<close>

definition hashOfInputs_spec :: "(bytes \<Rightarrow> bytes) \<Rightarrow> ERC20PublicInputs \<Rightarrow> int" where
  "hashOfInputs_spec sha inputs =
     int (nat_of_bytes (sha
       (padToLength (pub_adaptID inputs) 32
        @ padToLength (pub_depositAmount inputs) 32
        @ padToLength (pub_withdrawAmount inputs) 32
        @ padToLength (pub_outputTokenField inputs) 32
        @ padToLength (pub_outputEthAddress inputs) 32
        @ padToLength (pub_treeNumber inputs) 32
        @ padToLength (pub_merkleRoot inputs) 32
        @ concat (map (\<lambda>n. padToLength n 32) (pub_nullifiers inputs))
        @ concat (map (\<lambda>n. padToLength n 32) (pub_commitmentsOut inputs))
        @ padToLength (pub_ciphertextHash inputs) 32)))
     mod 21888242871839275222246405745257275088548364400416034343698204186575808495617"

text \<open>\<open>Prover.privateToPublicInputs\<close>.\<close>

definition privateToPublicInputs :: "ERC20PrivateInputs \<Rightarrow> ERC20PublicInputs" where
  "privateToPublicInputs inputs =
     \<lparr> pub_adaptID = adaptID inputs,
       pub_depositAmount = depositAmount inputs,
       pub_withdrawAmount = withdrawAmount inputs,
       pub_outputTokenField = outputTokenField inputs,
       pub_outputEthAddress = outputEthAddress inputs,
       pub_treeNumber = treeNumber inputs,
       pub_merkleRoot = merkleRoot inputs,
       pub_nullifiers = nullifiers inputs,
       pub_commitmentsOut = commitmentsOut inputs,
       pub_ciphertextHash = ciphertextHash inputs \<rparr>"

text \<open>
  The two converters of \<open>Prover.formatPrivateInputs\<close>: \<open>decimalify\<close> prints the number
  of a value in base ten, \<open>hexlify(x, true)\<close> its bytes with the \<open>0x\<close> prefix.
\<close>

definition convert :: "bool \<Rightarrow> BytesData \<Rightarrow> CircuitValue" where
  "convert decimal x =
     (if decimal then Decimal (int (nat_of_bytes (hexlify x))) else HexString (hexlify x))"

text \<open>Unpacking the recipient keys stops at the first key that is not a curve point.\<close>

fun unpackAll :: "(BytesData \<Rightarrow> (BytesData \<times> BytesData) option) \<Rightarrow> BytesData list
    \<Rightarrow> (BytesData list list) option" where
  "unpackAll unpack [] = Some []"
| "unpackAll unpack (el # els) =
     (case unpack el of
        None \<Rightarrow> None
      | Some (x, y) \<Rightarrow>
          (case unpackAll unpack els of
             None \<Rightarrow> None
           | Some rest \<Rightarrow> Some ([x, y] # rest)))"

text \<open>\<open>Prover.formatPrivateInputs\<close>.\<close>

definition formatPrivateInputs ::
    "prover_env \<Rightarrow> ERC20PrivateInputs \<Rightarrow> bool \<Rightarrow> error + FormattedCircuitInputs" where
  "formatPrivateInputs env inputs decimal =
     (let publicInputs = privateToPublicInputs inputs;
          hashOfInputs = hashInputs (sha256 env) publicInputs;
          conv = convert decimal
      in case unpackAll (unpackPoint env) (recipientPK inputs) of
           None \<Rightarrow> Inl InvalidPoint
         | Some pks \<Rightarrow> Inr
            \<lparr> f_hashOfInputs = conv (Hex hashOfInputs),
              f_adaptID = conv (adaptID inputs),
              f_tokenField = conv (tokenField inputs),
              f_depositAmount = conv (depositAmount inputs),
              f_withdrawAmount = conv (withdrawAmount inputs),
              f_outputTokenField = conv (outputTokenField inputs),
              f_outputEthAddress = conv (outputEthAddress inputs),
              f_randomIn = map conv (randomIn inputs),
              f_valuesIn = map conv (valuesIn inputs),
              f_spendingKeys = map conv (spendingKeys inputs),
              f_treeNumber = conv (treeNumber inputs),
              f_merkleRoot = conv (merkleRoot inputs),
              f_nullifiers = map conv (nullifiers inputs),
              f_pathElements = map (map conv) (pathElements inputs),
              f_pathIndices = map conv (pathIndices inputs),
              f_recipientPK = map (map conv) pks,
              f_randomOut = map conv (randomOut inputs),
              f_valuesOut = map conv (valuesOut inputs),
              f_commitmentsOut = map conv (commitmentsOut inputs),
              f_ciphertextHash = conv (ciphertextHash inputs) \<rparr>)"

text \<open>
  Reading an array element: JavaScript gives \<open>undefined\<close> beyond the end, and the
  conversion of \<open>undefined\<close> raises.
\<close>

definition element :: "'a list \<Rightarrow> nat \<Rightarrow> 'a option" where
  "element xs i = (if i < length xs then Some (xs ! i) else None)"

definition element2 :: "'a list list \<Rightarrow> nat \<Rightarrow> nat \<Rightarrow> 'a option" where
  "element2 xss i j = (case element xss i of None \<Rightarrow> None | Some xs \<Rightarrow> element xs j)"

text \<open>
  The proof as \<open>Prover.verify\<close> formats it for the Groth16 verifier: the coordinates
  in base ten, each pair of \<open>b\<close> in the other order.
\<close>

definition formatProofForVerifier :: "Proof \<Rightarrow> Groth16Proof option" where
  "formatProofForVerifier proof =
     (case (element (proof_a proof) 0, element (proof_a proof) 1,
            element2 (proof_b proof) 0 1, element2 (proof_b proof) 0 0,
            element2 (proof_b proof) 1 1, element2 (proof_b proof) 1 0,
            element (proof_c proof) 0, element (proof_c proof) 1) of
        (Some a0, Some a1, Some b01, Some b00, Some b11, Some b10, Some c0, Some c1) \<Rightarrow>
          Some \<lparr> pi_a = (numberify a0, numberify a1),
                 pi_b = ((numberify b01, numberify b00), (numberify b11, numberify b10)),
                 pi_c = (numberify c0, numberify c1) \<rparr>
      | _ \<Rightarrow> None)"

text \<open>\<open>Prover.verify\<close>.\<close>

definition verify ::
    "prover_env \<Rightarrow> Circuits \<Rightarrow> ERC20PublicInputs \<Rightarrow> Proof \<Rightarrow> error + bool" where
  "verify env circuit inputs proof =
     (let artifacts = artifactsGetter env circuit;
          hashOfInputs = hashInputs (sha256 env) inputs
      in case formatProofForVerifier proof of
           None \<Rightarrow> Inl MalformedProof
         | Some proofFormatted \<Rightarrow>
             Inr (groth16_verify env (vkey artifacts) [hashOfInputs] proofFormatted))"

text \<open>
  The proof as \<open>Prover.prove\<close> formats the prover's output: big numbers, each pair of
  \<open>b\<close> in the other order.
\<close>

definition formatProofFromProver :: "Groth16Proof \<Rightarrow> Proof" where
  "formatProofFromProver proof =
     \<lparr> proof_a = [BN (fst (pi_a proof)), BN (snd (pi_a proof))],
       proof_b = [[BN (snd (fst (pi_b proof))), BN (fst (fst (pi_b proof)))],
                  [BN (snd (snd (pi_b proof))), BN (fst (snd (pi_b proof)))]],
       proof_c = [BN (fst (pi_c proof)), BN (snd (pi_c proof))] \<rparr>"

text \<open>\<open>Prover.prove\<close>.\<close>

definition prove ::
    "prover_env \<Rightarrow> Circuits \<Rightarrow> ERC20PrivateInputs
      \<Rightarrow> error + (Proof \<times> ERC20PublicInputs)" where
  "prove env circuit inputs =
     (let artifacts = artifactsGetter env circuit
      in case formatPrivateInputs env inputs True of
           Inl e \<Rightarrow> Inl e
         | Inr formattedInputs \<Rightarrow>
            (let publicInputs = privateToPublicInputs inputs
             in case native_prove env formattedInputs of
                  None \<Rightarrow> Inl WitnessGenerationFailed
                | Some wtns \<Rightarrow>
                   (case groth16_prove env (zkey artifacts) wtns of
                      None \<Rightarrow> Inl Groth16ProveFailed
                    | Some proof \<Rightarrow>
                       (let proofFormatted = formatProofFromProver proof
                        in case verify env circuit publicInputs proofFormatted of
                             Inl e \<Rightarrow> Inl e
                           | Inr ok \<Rightarrow>
                               if \<not> ok then Inl ProofGenerationFailed
                               else Inr (proofFormatted, publicInputs)))))"

section \<open>Address codec\<close>

text \<open>
  A JavaScript array with holes: \<open>None\<close> is an empty slot. Assigning beyond the end
  extends the array with empty slots; reading outside it gives \<open>undefined\<close>.
\<close>

definition array_set :: "'a option list \<Rightarrow> nat \<Rightarrow> 'a \<Rightarrow> 'a option list" where
  "array_set xs i v =
     (if i < length xs then xs[i := Some v]
      else xs @ replicate (i - length xs) None @ [Some v])"

definition array_get :: "'a option list \<Rightarrow> int \<Rightarrow> 'a option" where
  "array_get xs i = (if 0 \<le> i \<and> nat i < length xs then xs ! nat i else None)"

text \<open>\<open>Array.prototype.indexOf\<close>: the first index holding the value, or \<open>-1\<close>.\<close>

fun indexOf_from :: "nat \<Rightarrow> 'a option list \<Rightarrow> 'a \<Rightarrow> int" where
  "indexOf_from k [] v = - 1"
| "indexOf_from k (x # xs) v = (if x = Some v then int k else indexOf_from (Suc k) xs v)"

definition indexOf :: "'a option list \<Rightarrow> 'a \<Rightarrow> int" where
  "indexOf xs v = indexOf_from 0 xs v"

definition includes_value :: "'a option list \<Rightarrow> 'a \<Rightarrow> bool" where
  "includes_value xs v = (indexOf xs v \<noteq> - 1)"

definition prefixes :: "string option list" where
  "prefixes =
     array_set (array_set (array_set (array_set (array_set []
       1 ''rgeth'') 3 ''rgtestropsten'') 5 ''rgtestgoerli'') 56 ''rgbsc'') 137 ''rgpoly''"

text \<open>
  The Bech32 library (\<open>bech32-buffer\<close>) is an external dependency: its encoder and its
  decoder, which fails on a string that is not a Bech32 string. The type of encoded
  strings is left open.
\<close>

record 'addr bech32_buffer =
  bech32encode :: "string \<Rightarrow> bytes \<Rightarrow> 'addr"
  bech32decode :: "'addr \<Rightarrow> (string \<times> bytes) option"

datatype address_error =
    Bech32DecodeFailed
  | IncorrectAddressVersion
  | AddressPrefixUnrecognized

record DecodedAddress =
  addr_chainID :: "int option"
  addr_pubkey :: bytes

text \<open>
  \<open>encode\<close>. The chain ID is a number or \<open>undefined\<close>; the test
  \<open>chainID && prefixes[chainID]\<close> holds for a non-zero chain ID whose slot of the
  table holds a non-empty string.
\<close>

definition encode :: "'addr bech32_buffer \<Rightarrow> BytesData \<Rightarrow> int option \<Rightarrow> 'addr" where
  "encode lib pubkey chainID =
     (let data = combine [BN VERSION, pubkey]
      in case chainID of
           None \<Rightarrow> bech32encode lib ''rgany'' data
         | Some cid \<Rightarrow>
            (case array_get prefixes cid of
               None \<Rightarrow> bech32encode lib ''rgany'' data
             | Some prefix \<Rightarrow>
                 if cid \<noteq> 0 \<and> prefix \<noteq> []
                 then bech32encode lib prefix data
                 else bech32encode lib ''rgany'' data))"

text \<open>
  \<open>decode\<close>. The data is read as a hex string: its first two digits are the version
  byte, the rest is the key.
\<close>

definition decode :: "'addr bech32_buffer \<Rightarrow> 'addr \<Rightarrow> address_error + DecodedAddress" where
  "decode lib address =
     (case bech32decode lib address of
        None \<Rightarrow> Inl Bech32DecodeFailed
      | Some (decoded_prefix, decoded_data) \<Rightarrow>
         (let data = hexlify (Hex decoded_data);
              version = numberify (Hex (take 1 data))
          in if version \<noteq> VERSION then Inl IncorrectAddressVersion
             else
              (let pubkey = drop 1 data
               in if includes_value prefixes decoded_prefix
                  then Inr \<lparr> addr_chainID = Some (indexOf prefixes decoded_prefix),
                             addr_pubkey = pubkey \<rparr>
                  else if decoded_prefix = ''rgany''
                  then Inr \<lparr> addr_chainID = None, addr_pubkey = pubkey \<rparr>
                  else Inl AddressPrefixUnrecognized)))"

text \<open>
  The chain IDs that have a prefix of their own, and the prefix \<open>encode\<close> is to use
  according to the table of section 4.C of the specification.
\<close>

definition known_chain :: "int option \<Rightarrow> bool" where
  "known_chain chainID = (chainID \<in> {Some 1, Some 3, Some 5, Some 56, Some 137})"

definition spec_prefix :: "int option \<Rightarrow> string" where
  "spec_prefix chainID =
     (if chainID = Some 1 then ''rgeth''
      else if chainID = Some 3 then ''rgtestropsten''
      else if chainID = Some 5 then ''rgtestgoerli''
      else if chainID = Some 56 then ''rgbsc''
      else if chainID = Some 137 then ''rgpoly''
      else ''rgany'')"

section \<open>Wallet\<close>

text \<open>
  Modelled from the spec: the note (the module \<open>note\<close> is missing). A note holds the
  recipient's packed public key, a nonce, an amount and a token (section 3); the
  constructor keeps what it is given.
\<close>

record ERC20Note =
  note_pubkey :: bytes
  note_random :: bytes
  note_amount :: BytesData
  note_token :: bytes

record Keypair =
  privateKey :: bytes
  kp_pubkey :: bytes

text \<open>
  A leaf of the commitment tree: an encrypted commitment (transaction id, sender's
  public key, ciphertext) or a generated one (transaction id, serialized note).
\<close>

datatype Commitment =
    EncryptedCommitment bytes bytes "bytes list"
  | GeneratedCommitment bytes bytes

record TXO =
  txo_tree :: nat
  txo_position :: nat
  txo_index :: nat
  txo_change :: bool
  txo_txid :: bytes
  txo_spendtxid :: "bytes option"
  txo_dummyKey :: "bytes option"
  txo_note :: ERC20Note

record WalletDetails =
  treeScannedHeights :: "nat list"
  primaryHeight :: nat
  changeHeight :: nat

text \<open>The value \<open>scanIndex\<close> stores for a received note.\<close>

record StoredTXO =
  st_index :: nat
  st_change :: bool
  st_spendtxid :: "bytes option"
  st_txid :: bytes
  st_nullifier :: bytes
  st_decrypted :: bytes

text \<open>
  The merkle tree mirror of one chain is external: the wallet reads it through these
  operations. \<open>getCommitment\<close> gives \<open>undefined\<close> where the mirror has no leaf.
\<close>

record MerkleTree =
  mt_chainID :: nat
  latestTree :: nat
  getTreeLength :: "nat \<Rightarrow> nat"
  getCommitment :: "nat \<Rightarrow> nat \<Rightarrow> Commitment option"
  getNullified :: "bytes \<Rightarrow> bytes option"
  getProofElements :: "nat \<Rightarrow> nat \<Rightarrow> bytes list"
  getRoot :: "nat \<Rightarrow> bytes"

text \<open>
  The curve, cipher and note primitives the wallet and the transaction builder call.
  Shared-secret derivation and point unpacking fail on a value that is not a curve
  point, note decryption and deserialization on a malformed note. \<open>random\<close> is the
  random source, one value per draw (see \<open>draw\<close> below).
\<close>

datatype draw =
    DummyInputKey nat nat
  | DummyInputRandom nat nat
  | ChangeRandom
  | DummyOutputKey nat
  | DummyOutputRandom nat
  | SenderKey nat
  | NoteIV nat
  | RevealIV nat

record crypto =
  hash_sha256 :: "bytes \<Rightarrow> bytes"
  ecdh :: "bytes \<Rightarrow> bytes \<Rightarrow> error + bytes"
  unpack :: "bytes \<Rightarrow> error + (bytes \<times> bytes)"
  seedToPrivateKey :: "bytes \<Rightarrow> bytes"
  privateKeyToPubKey :: "bytes \<Rightarrow> bytes"
  aes256ctr :: "bytes \<Rightarrow> bytes \<Rightarrow> bytes list \<Rightarrow> bytes list"
  note_hash :: "ERC20Note \<Rightarrow> error + bytes"
  note_decrypt :: "bytes list \<Rightarrow> bytes \<Rightarrow> error + ERC20Note"
  note_deserialize :: "bytes \<Rightarrow> error + ERC20Note"
  note_serialize :: "ERC20Note \<Rightarrow> bytes"
  getNullifier :: "bytes \<Rightarrow> nat \<Rightarrow> nat \<Rightarrow> bytes"
  random :: "draw \<Rightarrow> bytes"

text \<open>
  The wallet object: its encryption key, the gap limit, the key derivation of its
  primary and change nodes (\<open>derive_key change index\<close>) and the merkle trees loaded
  into it, by chain ID.
\<close>

record Wallet =
  encryptionKey :: bytes
  gapLimit :: nat
  derive_key :: "bool \<Rightarrow> nat \<Rightarrow> Keypair"
  merkletree :: "nat \<Rightarrow> MerkleTree option"

text \<open>
  What a wallet changes: the received notes in the database, by chain ID, tree and
  position; the persisted wallet details; and the scan lock of each chain.
\<close>

record WalletState =
  db_txos :: "((nat \<times> nat \<times> nat) \<times> StoredTXO) list"
  db_details :: "WalletDetails option"
  scanLockPerChain :: "bool option list"

text \<open>A string or \<open>false\<close> in a condition: \<open>false\<close> and the empty string do not hold.\<close>

definition truthy :: "bytes option \<Rightarrow> bool" where
  "truthy x = (case x of None \<Rightarrow> False | Some str \<Rightarrow> str \<noteq> [])"

text \<open>\<open>Wallet.getKeypair\<close>.\<close>

definition getKeypair ::
    "Wallet \<Rightarrow> BytesData \<Rightarrow> nat \<Rightarrow> bool \<Rightarrow> nat option \<Rightarrow> error + Keypair" where
  "getKeypair w encKey index change chain =
     (if hexlify encKey \<noteq> hexlify (Hex (encryptionKey w)) then Inl WrongEncryptionKey
      else if change then Inr (derive_key w True index)
      else Inr (derive_key w False index))"

text \<open>\<open>Wallet.getViewKey\<close>.\<close>

definition getViewKey :: "crypto \<Rightarrow> Wallet \<Rightarrow> BytesData \<Rightarrow> error + bytes" where
  "getViewKey cr w encKey =
     (case getKeypair w encKey 0 False None of
        Inl e \<Rightarrow> Inl e
      | Inr keypair \<Rightarrow> Inr (hash_sha256 cr (privateKey keypair)))"

text \<open>\<open>Wallet.getWalletDetails\<close>: the stored details, or the defaults.\<close>

definition getWalletDetails :: "WalletState \<Rightarrow> WalletDetails" where
  "getWalletDetails st =
     (case db_details st of
        Some walletDetails \<Rightarrow> walletDetails
      | None \<Rightarrow> \<lparr> treeScannedHeights = [], primaryHeight = 0, changeHeight = 0 \<rparr>)"

text \<open>A \<open>put\<close> of the database: the value of a key is replaced, a new key is added.\<close>

fun db_put :: "('k \<times> 'v) list \<Rightarrow> 'k \<Rightarrow> 'v \<Rightarrow> ('k \<times> 'v) list" where
  "db_put [] k v = [(k, v)]"
| "db_put ((k', v') # rest) k v =
     (if k' = k then (k, v) # rest else (k', v') # db_put rest k v)"

definition db_batch :: "('k \<times> 'v) list \<Rightarrow> ('k \<times> 'v) list \<Rightarrow> ('k \<times> 'v) list" where
  "db_batch db writeBatch = foldl (\<lambda>d (k, v). db_put d k v) db writeBatch"

text \<open>The note of a leaf, as the body of the loop of \<open>scanIndex\<close> reads it.\<close>

definition readLeaf :: "crypto \<Rightarrow> Keypair \<Rightarrow> Commitment \<Rightarrow> error + ERC20Note" where
  "readLeaf cr key leaf =
     (case leaf of
        EncryptedCommitment txid senderPubKey ciphertext \<Rightarrow>
          (case ecdh cr (privateKey key) senderPubKey of
             Inl e \<Rightarrow> Inl e
           | Inr sharedKey \<Rightarrow> note_decrypt cr ciphertext sharedKey)
      | GeneratedCommitment txid data \<Rightarrow> note_deserialize cr data)"

definition leaf_txid :: "Commitment \<Rightarrow> bytes" where
  "leaf_txid leaf =
     (case leaf of
        EncryptedCommitment txid senderPubKey ciphertext \<Rightarrow> txid
      | GeneratedCommitment txid data \<Rightarrow> txid)"

text \<open>The \<open>put\<close> that \<open>scanIndex\<close> queues for a leaf addressed to the key.\<close>

definition txoPut ::
    "crypto \<Rightarrow> Keypair \<Rightarrow> nat \<Rightarrow> bool \<Rightarrow> nat \<Rightarrow> nat \<Rightarrow> nat \<Rightarrow> Commitment \<Rightarrow> ERC20Note
      \<Rightarrow> (nat \<times> nat \<times> nat) \<times> StoredTXO" where
  "txoPut cr key index change tree chain position leaf note =
     ((chain, tree, position),
      \<lparr> st_index = index, st_change = change, st_spendtxid = None,
        st_txid = leaf_txid leaf,
        st_nullifier = getNullifier cr (privateKey key) tree position,
        st_decrypted = note_serialize cr note \<rparr>)"

text \<open>
  The loop of \<open>scanIndex\<close> over the leaves from a position on: empty slots are
  passed over, an exception ends the loop, a note addressed to the key is queued.
\<close>

fun scanIndex_loop ::
    "crypto \<Rightarrow> Keypair \<Rightarrow> nat \<Rightarrow> bool \<Rightarrow> nat \<Rightarrow> nat \<Rightarrow> nat \<Rightarrow> Commitment option list
      \<Rightarrow> error + ((nat \<times> nat \<times> nat) \<times> StoredTXO) list" where
  "scanIndex_loop cr key index change tree chain position [] = Inr []"
| "scanIndex_loop cr key index change tree chain position (None # leaves) =
     scanIndex_loop cr key index change tree chain (Suc position) leaves"
| "scanIndex_loop cr key index change tree chain position (Some leaf # leaves) =
     (case readLeaf cr key leaf of
        Inl e \<Rightarrow> Inl e
      | Inr note \<Rightarrow>
         (case scanIndex_loop cr key index change tree chain (Suc position) leaves of
            Inl e \<Rightarrow> Inl e
          | Inr writeBatch \<Rightarrow>
              if note_pubkey note = kp_pubkey key
              then Inr (txoPut cr key index change tree chain position leaf note
                        # writeBatch)
              else Inr writeBatch))"

text \<open>
  \<open>Wallet.scanIndex\<close>: the new database and the outcome, an exception or whether a
  leaf was addressed to the key. An exception leaves the database as it was.
\<close>

definition scanIndex ::
    "crypto \<Rightarrow> Wallet \<Rightarrow> nat \<Rightarrow> bool \<Rightarrow> Commitment option list \<Rightarrow> nat \<Rightarrow> nat
      \<Rightarrow> WalletState \<Rightarrow> WalletState \<times> (error + bool)" where
  "scanIndex cr w index change leaves tree chain st =
     (let key = (if change then derive_key w True index else derive_key w False index)
      in case scanIndex_loop cr key index change tree chain 0 leaves of
           Inl e \<Rightarrow> (st, Inl e)
         | Inr writeBatch \<Rightarrow>
             (st\<lparr> db_txos := db_batch (db_txos st) writeBatch \<rparr>, Inr (writeBatch \<noteq> [])))"

text \<open>
  One pass of the inner loop of \<open>scanLeaves\<close> over the indexes it visits: an index whose
  entry of \<open>usedIndexes\<close> holds is kept, any other index is scanned. The outcomes are
  the promises of the pass, in the order of the indexes.
\<close>

fun scanPass ::
    "(nat \<Rightarrow> 's \<Rightarrow> 's \<times> (error + bool)) \<Rightarrow> nat list \<Rightarrow> bool list \<Rightarrow> 's
      \<Rightarrow> 's \<times> (error + bool) list" where
  "scanPass scanf [] usedIndexes st = (st, [])"
| "scanPass scanf (index # indexes) usedIndexes st =
     (if index < length usedIndexes \<and> usedIndexes ! index
      then (case scanPass scanf indexes usedIndexes st of
              (st', promises) \<Rightarrow> (st', Inr True # promises))
      else (case scanf index st of
              (st1, promise) \<Rightarrow>
                (case scanPass scanf indexes usedIndexes st1 of
                   (st2, promises) \<Rightarrow> (st2, promise # promises))))"

text \<open>\<open>Promise.all\<close>: the values of the promises, or the first rejection.\<close>

fun awaitAll :: "(error + 'a) list \<Rightarrow> error + 'a list" where
  "awaitAll [] = Inr []"
| "awaitAll (Inl e # promises) = Inl e"
| "awaitAll (Inr v # promises) =
     (case awaitAll promises of Inl e \<Rightarrow> Inl e | Inr vs \<Rightarrow> Inr (v # vs))"

text \<open>
  \<open>Array.prototype.lastIndexOf(true)\<close> on an array of booleans: the last index that
  holds \<open>true\<close>, or \<open>-1\<close>.
\<close>

fun lastIndexOf_from :: "nat \<Rightarrow> bool list \<Rightarrow> int \<Rightarrow> int" where
  "lastIndexOf_from k [] found = found"
| "lastIndexOf_from k (x # xs) found =
     lastIndexOf_from (Suc k) xs (if x then int k else found)"

definition lastIndexOf_true :: "bool list \<Rightarrow> int" where
  "lastIndexOf_true xs = lastIndexOf_from 0 xs (- 1)"

text \<open>
  The body of the outer loop of \<open>scanLeaves\<close>: a pass over the indexes from \<open>0\<close> up to
  and including \<open>height + gapLimit\<close>, the wait for its promises, and the new height.
\<close>

definition scanLeaves_pass ::
    "(nat \<Rightarrow> 's \<Rightarrow> 's \<times> (error + bool)) \<Rightarrow> nat \<Rightarrow> nat \<Rightarrow> bool list \<Rightarrow> 's
      \<Rightarrow> 's \<times> (error + (nat \<times> bool list))" where
  "scanLeaves_pass scanf gap height usedIndexes st =
     (case scanPass scanf [0..<height + gap + 1] usedIndexes st of
        (st', promises) \<Rightarrow>
          (case awaitAll (promises @ map Inr (drop (height + gap + 1) usedIndexes)) of
             Inl e \<Rightarrow> (st', Inl e)
           | Inr usedIndexes' \<Rightarrow>
               (st', Inr (if lastIndexOf_true usedIndexes' = - 1 then 0
                          else nat (lastIndexOf_true usedIndexes'),
                          usedIndexes'))))"

text \<open>
  The outer loop of \<open>scanLeaves\<close>. The loop need not end (every pass may find a higher
  index in use), so it runs on fuel, one unit a pass: \<open>None\<close> is a loop that is still
  running when the fuel is spent.
\<close>

fun scanLeaves_loop ::
    "nat \<Rightarrow> (nat \<Rightarrow> 's \<Rightarrow> 's \<times> (error + bool)) \<Rightarrow> nat \<Rightarrow> nat \<Rightarrow> bool list \<Rightarrow> 's
      \<Rightarrow> ('s \<times> (error + nat)) option" where
  "scanLeaves_loop 0 scanf gap height usedIndexes st =
     (if length usedIndexes < height + gap then None else Some (st, Inr height))"
| "scanLeaves_loop (Suc fuel) scanf gap height usedIndexes st =
     (if length usedIndexes < height + gap then
        (case scanLeaves_pass scanf gap height usedIndexes st of
           (st', Inl e) \<Rightarrow> Some (st', Inl e)
         | (st', Inr (height', usedIndexes')) \<Rightarrow>
             scanLeaves_loop fuel scanf gap height' usedIndexes' st')
      else Some (st, Inr height))"

text \<open>\<open>Wallet.scanLeaves\<close>.\<close>

definition scanLeaves ::
    "nat \<Rightarrow> crypto \<Rightarrow> Wallet \<Rightarrow> Commitment option list \<Rightarrow> bool \<Rightarrow> nat \<Rightarrow> nat \<Rightarrow> nat
      \<Rightarrow> WalletState \<Rightarrow> (WalletState \<times> (error + nat)) option" where
  "scanLeaves fuel cr w leaves change initialHeight tree chain st =
     scanLeaves_loop fuel (\<lambda>index. scanIndex cr w index change leaves tree chain)
       (gapLimit w) initialHeight [] st"

text \<open>
  The leaves \<open>scan\<close> fetches for a tree: an array as long as the tree, empty below
  the scanned height and wherever the mirror has no leaf.
\<close>

definition fetchLeaves :: "MerkleTree \<Rightarrow> nat \<Rightarrow> nat \<Rightarrow> Commitment option list" where
  "fetchLeaves mt tree scannedHeight =
     map (\<lambda>index. if scannedHeight \<le> index then getCommitment mt tree index else None)
       [0..<getTreeLength mt tree]"

text \<open>
  The body of the loop of \<open>scan\<close> over the trees. Both sweeps start from
  \<open>walletDetails.primaryHeight\<close>, as in the source; both are started before either
  is awaited, the primary one first.
\<close>

definition scanTree ::
    "nat \<Rightarrow> crypto \<Rightarrow> Wallet \<Rightarrow> MerkleTree \<Rightarrow> nat \<Rightarrow> WalletState \<Rightarrow> WalletDetails
      \<Rightarrow> (WalletState \<times> (error + WalletDetails)) option" where
  "scanTree fuel cr w mt tree st walletDetails =
     (let scannedHeight = treeScannedHeights walletDetails ! tree;
          leaves = fetchLeaves mt tree scannedHeight
      in case scanLeaves fuel cr w leaves False (primaryHeight walletDetails) tree
                (mt_chainID mt) st of
           None \<Rightarrow> None
         | Some (st1, primaryResult) \<Rightarrow>
            (case scanLeaves fuel cr w leaves True (primaryHeight walletDetails) tree
                    (mt_chainID mt) st1 of
               None \<Rightarrow> None
             | Some (st2, changeResult) \<Rightarrow>
                (case primaryResult of
                   Inl e \<Rightarrow> Some (st2, Inl e)
                 | Inr newPrimaryHeight \<Rightarrow>
                    (case changeResult of
                       Inl e \<Rightarrow> Some (st2, Inl e)
                     | Inr newChangeHeight \<Rightarrow>
                         Some (st2, Inr
                           \<lparr> treeScannedHeights = (treeScannedHeights walletDetails)
                                [tree := (if length leaves > 0 then length leaves - 1 else 0)],
                             primaryHeight = newPrimaryHeight,
                             changeHeight = newChangeHeight \<rparr>)))))"

fun scanTrees ::
    "nat \<Rightarrow> crypto \<Rightarrow> Wallet \<Rightarrow> MerkleTree \<Rightarrow> nat list \<Rightarrow> WalletState \<Rightarrow> WalletDetails
      \<Rightarrow> (WalletState \<times> (error + WalletDetails)) option" where
  "scanTrees fuel cr w mt [] st walletDetails = Some (st, Inr walletDetails)"
| "scanTrees fuel cr w mt (tree # trees) st walletDetails =
     (case scanTree fuel cr w mt tree st walletDetails of
        None \<Rightarrow> None
      | Some (st', Inl e) \<Rightarrow> Some (st', Inl e)
      | Some (st', Inr walletDetails') \<Rightarrow> scanTrees fuel cr w mt trees st' walletDetails')"

text \<open>
  \<open>Wallet.scan\<close>. The fuel bounds the passes of each sweep. An exception leaves the
  lock of the chain set and the wallet details unwritten.
\<close>

definition scan ::
    "nat \<Rightarrow> crypto \<Rightarrow> Wallet \<Rightarrow> nat \<Rightarrow> WalletState \<Rightarrow> (WalletState \<times> (error + unit)) option"
    where
  "scan fuel cr w chain st =
     (if array_get (scanLockPerChain st) (int chain) = Some True then Some (st, Inr ())
      else
       (let st1 = st\<lparr> scanLockPerChain := array_set (scanLockPerChain st) chain True \<rparr>;
            walletDetails = getWalletDetails st1
        in case merkletree w chain of
             None \<Rightarrow> Some (st1, Inl TypeError)
           | Some mt \<Rightarrow>
              (let heights = treeScannedHeights walletDetails;
                   walletDetails1 = walletDetails
                     \<lparr> treeScannedHeights :=
                         heights @ replicate (latestTree mt + 1 - length heights) 0 \<rparr>
               in case scanTrees fuel cr w mt
                         [0..<length (treeScannedHeights walletDetails1)] st1 walletDetails1 of
                    None \<Rightarrow> None
                  | Some (st2, Inl e) \<Rightarrow> Some (st2, Inl e)
                  | Some (st2, Inr walletDetails2) \<Rightarrow>
                      Some (st2\<lparr> db_details := Some walletDetails2,
                                 scanLockPerChain :=
                                   array_set (scanLockPerChain st2) chain False \<rparr>,
                            Inr ()))))"

text \<open>
  The body of the loop of \<open>Wallet.TXOs\<close> for one stored record: a record not yet marked
  as spent is marked, and written back, when the mirror knows its nullifier.
\<close>

definition loadTXO ::
    "crypto \<Rightarrow> MerkleTree option \<Rightarrow> (nat \<times> nat \<times> nat) \<times> StoredTXO
      \<Rightarrow> StoredTXO \<times> (error + TXO)" where
  "loadTXO cr mt entry =
     (case entry of
        ((chain, tree, position), stored) \<Rightarrow>
          (let checked =
                 (if truthy (st_spendtxid stored) then Inr stored
                  else (case mt of
                          None \<Rightarrow> Inl TypeError
                        | Some m \<Rightarrow>
                            (let nullifierTX = getNullified m (st_nullifier stored)
                             in if truthy nullifierTX
                                then Inr (stored\<lparr> st_spendtxid := nullifierTX \<rparr>)
                                else Inr stored)))
           in case checked of
                Inl e \<Rightarrow> (stored, Inl e)
              | Inr stored' \<Rightarrow>
                 (case note_deserialize cr (st_decrypted stored') of
                    Inl e \<Rightarrow> (stored', Inl e)
                  | Inr note \<Rightarrow>
                      (stored', Inr
                        \<lparr> txo_tree = tree, txo_position = position,
                          txo_index = st_index stored', txo_change = st_change stored',
                          txo_txid = st_txid stored', txo_spendtxid = st_spendtxid stored',
                          txo_dummyKey = None, txo_note = note \<rparr>))))"

text \<open>
  \<open>Wallet.TXOs\<close>: the records of the chain in the order of their keys, each checked
  against the nullifiers of the mirror.
\<close>

definition TXOs ::
    "crypto \<Rightarrow> Wallet \<Rightarrow> nat \<Rightarrow> WalletState \<Rightarrow> WalletState \<times> (error + TXO list)" where
  "TXOs cr w chain st =
     (let keys = sort_key fst (filter (\<lambda>entry. fst (fst entry) = chain) (db_txos st));
          loaded = map (\<lambda>entry. (fst entry, loadTXO cr (merkletree w chain) entry)) keys;
          st' = st\<lparr> db_txos :=
                  db_batch (db_txos st) (map (\<lambda>(k, stored', r). (k, stored')) loaded) \<rparr>
      in (st', awaitAll (map (\<lambda>(k, stored', r). r) loaded)))"

record TokenBalance =
  tb_balance :: int
  tb_utxos :: "TXO list"

text \<open>
  The body of the loop of \<open>Wallet.balances\<close>: the token of the output gets an entry,
  and an unspent output is added to it.
\<close>

definition addBalance :: "(bytes \<rightharpoonup> TokenBalance) \<Rightarrow> TXO \<Rightarrow> (bytes \<rightharpoonup> TokenBalance)" where
  "addBalance balances txOutput =
     (let token = note_token (txo_note txOutput);
          entry = (case balances token of
                     None \<Rightarrow> \<lparr> tb_balance = 0, tb_utxos = [] \<rparr>
                   | Some e \<Rightarrow> e)
      in if \<not> truthy (txo_spendtxid txOutput)
         then balances(token \<mapsto>
                \<lparr> tb_balance = tb_balance entry + numberify (note_amount (txo_note txOutput)),
                  tb_utxos = tb_utxos entry @ [txOutput] \<rparr>)
         else balances(token \<mapsto> entry))"

text \<open>\<open>Wallet.balances\<close>, from the outputs \<open>TXOs\<close> returned.\<close>

definition balances :: "TXO list \<Rightarrow> (bytes \<rightharpoonup> TokenBalance)" where
  "balances txos = foldl addBalance Map.empty txos"

text \<open>
  The body of the inner loop of \<open>Wallet.balancesByTree\<close>: the unspent output is added
  to the entry of its tree, which is created when the slot is empty.
\<close>

definition addToTree :: "TokenBalance option list \<Rightarrow> TXO \<Rightarrow> TokenBalance option list" where
  "addToTree byTree utxo =
     (case array_get byTree (int (txo_tree utxo)) of
        None \<Rightarrow>
          array_set byTree (txo_tree utxo)
            \<lparr> tb_balance = numberify (note_amount (txo_note utxo)), tb_utxos = [utxo] \<rparr>
      | Some entry \<Rightarrow>
          array_set byTree (txo_tree utxo)
            \<lparr> tb_balance = tb_balance entry + numberify (note_amount (txo_note utxo)),
              tb_utxos = tb_utxos entry @ [utxo] \<rparr>)"

text \<open>
  \<open>Wallet.balancesByTree\<close>, read at one token: \<open>undefined\<close> for a token the wallet
  has no output of, else the array of the balances of its trees.
\<close>

definition balancesByTree :: "TXO list \<Rightarrow> bytes \<Rightarrow> TokenBalance option list option" where
  "balancesByTree txos token =
     (case balances txos token of
        None \<Rightarrow> None
      | Some entry \<Rightarrow> Some (foldl addToTree [] (tb_utxos entry)))"

section \<open>Symmetric encryption (utils/encryption)\<close>

record Ciphertext =
  ct_iv :: bytes
  ct_data :: "bytes list"

text \<open>
  \<open>aes.ctr.encrypt\<close>, with the initialization vector it drew: the key is padded to 32
  bytes, and the cipher of the platform turns the blocks into as many blocks.
\<close>

definition aes_ctr_encrypt :: "crypto \<Rightarrow> bytes list \<Rightarrow> bytes \<Rightarrow> bytes \<Rightarrow> Ciphertext" where
  "aes_ctr_encrypt cr plaintext key iv =
     (let keyFormatted = padToLength (Hex key) 32;
          ivFormatted = iv
      in \<lparr> ct_iv = hexlify (Hex ivFormatted),
           ct_data = aes256ctr cr keyFormatted ivFormatted plaintext \<rparr>)"

text \<open>
  Modelled from the spec: \<open>ERC20Note.encrypt\<close> (the module \<open>note\<close> is missing),
  AES-256-CTR over the three blocks \<open>pubkey\<close>, \<open>random || amount\<close> and \<open>token\<close>
  (section 4.B).
\<close>

definition note_encrypt :: "crypto \<Rightarrow> ERC20Note \<Rightarrow> bytes \<Rightarrow> bytes \<Rightarrow> Ciphertext" where
  "note_encrypt cr note sharedKey iv =
     aes_ctr_encrypt cr
       [note_pubkey note,
        padToLength (Hex (note_random note)) 16 @ padToLength (note_amount note) 16,
        note_token note]
       sharedKey iv"

section \<open>Transaction builder\<close>

definition NOTE_INPUTS_small :: nat where
  "NOTE_INPUTS_small = 2"

definition NOTE_INPUTS_large :: nat where
  "NOTE_INPUTS_large = 10"

definition NOTE_OUTPUTS :: nat where
  "NOTE_OUTPUTS = 3"

text \<open>
  Modelled from the spec: \<open>depths.erc20\<close> (the module \<open>merkletree\<close> is missing), the
  depth of the commitment trees (section 3).
\<close>

definition depths_erc20 :: nat where
  "depths_erc20 = 16"

record AdaptID =
  adapt_contract :: BytesData
  adapt_parameters :: BytesData

record ERC20Transaction =
  tx_adaptID :: AdaptID
  tx_chainID :: nat
  tx_token :: bytes
  tx_outputs :: "ERC20Note list"
  tx_deposit :: int
  tx_withdraw :: int
  tx_withdrawAddress :: "bytes option"
  tx_tree :: "nat option"

record CommitmentOut =
  co_hash :: bytes
  co_ciphertext :: "bytes list"
  co_senderPubKey :: bytes
  co_revealKey :: "bytes list"

record GeneratedInputs =
  gi_inputs :: ERC20PrivateInputs
  gi_commitments :: "CommitmentOut list"

text \<open>The getter \<open>adaptIDhash\<close>.\<close>

definition adaptIDhash :: "crypto \<Rightarrow> ERC20Transaction \<Rightarrow> bytes" where
  "adaptIDhash cr tx =
     hash_sha256 cr (combine
       [Hex (padToLength (adapt_contract (tx_adaptID tx)) 32),
        Hex (padToLength (adapt_parameters (tx_adaptID tx)) 32)])"

text \<open>The sum of the amounts of a list of outputs, and of a list of notes.\<close>

definition sumUTXOs :: "TXO list \<Rightarrow> int" where
  "sumUTXOs utxos =
     foldl (\<lambda>left right. left + numberify (note_amount (txo_note right))) 0 utxos"

definition sumNotes :: "ERC20Note list \<Rightarrow> int" where
  "sumNotes notes = foldl (\<lambda>left right. left + numberify (note_amount right)) 0 notes"

text \<open>The first output whose token is not the token of the transaction.\<close>

fun tokenMismatch :: "bytes \<Rightarrow> nat \<Rightarrow> ERC20Note list \<Rightarrow> nat option" where
  "tokenMismatch token index [] = None"
| "tokenMismatch token index (output # outputs) =
     (if note_token output \<noteq> token then Some index
      else tokenMismatch token (Suc index) outputs)"

text \<open>
  The loop that accumulates outputs until their sum reaches the target: the next
  largest output is pushed while the sum is below the target. Beyond the last
  output it pushes \<open>undefined\<close>, and the sum then raises.
\<close>

fun accumulate :: "int \<Rightarrow> TXO list \<Rightarrow> TXO list \<Rightarrow> error + TXO list" where
  "accumulate totalRequired utxos [] =
     (if sumUTXOs utxos < totalRequired then Inl TypeError else Inr utxos)"
| "accumulate totalRequired utxos (next # remaining) =
     (if sumUTXOs utxos < totalRequired
      then accumulate totalRequired (utxos @ [next]) remaining
      else Inr utxos)"

text \<open>A dummy input of a tree, the \<open>k\<close>-th the builder makes for it.\<close>

definition dummyTXO :: "crypto \<Rightarrow> bytes \<Rightarrow> nat \<Rightarrow> nat \<Rightarrow> TXO" where
  "dummyTXO cr token tree k =
     (let dummyKey = seedToPrivateKey cr (random cr (DummyInputKey tree k))
      in \<lparr> txo_tree = tree, txo_position = 0, txo_index = 0, txo_change = False,
           txo_txid = [], txo_spendtxid = None, txo_dummyKey = Some dummyKey,
           txo_note =
             \<lparr> note_pubkey = privateKeyToPubKey cr dummyKey,
               note_random = random cr (DummyInputRandom tree k),
               note_amount = Hex [0],
               note_token = token \<rparr> \<rparr>)"

text \<open>
  \<open>fillUTXOs\<close>: with fewer outputs in the tree than the length, all of them and dummy
  notes; else the selected ones and outputs from the end of the sorted list.
\<close>

definition fillUTXOs ::
    "crypto \<Rightarrow> bytes \<Rightarrow> nat \<Rightarrow> TXO list \<Rightarrow> TXO list \<Rightarrow> nat \<Rightarrow> TXO list" where
  "fillUTXOs cr token tree sortedUTXOs utxos len =
     (if length sortedUTXOs < len
      then sortedUTXOs @ map (dummyTXO cr token tree) [0..<len - length sortedUTXOs]
      else utxos @ take (len - length utxos) (rev sortedUTXOs))"

text \<open>
  The spending solution of one tree, the body of the \<open>map\<close> over the tree balances.
  The sort is the stable sort of the platform, by decreasing amount.
\<close>

definition treeSolution ::
    "crypto \<Rightarrow> bytes \<Rightarrow> int \<Rightarrow> nat \<Rightarrow> TokenBalance \<Rightarrow> error + TXO list" where
  "treeSolution cr token totalRequired tree treeBalance =
     (if tb_balance treeBalance < totalRequired then Inr []
      else
       (let sortedUTXOs = sort_key (\<lambda>utxo. - numberify (note_amount (txo_note utxo)))
                            (tb_utxos treeBalance)
        in case accumulate totalRequired [] sortedUTXOs of
             Inl e \<Rightarrow> Inl e
           | Inr utxos \<Rightarrow>
               if length utxos \<le> NOTE_INPUTS_small
               then Inr (fillUTXOs cr token tree sortedUTXOs utxos NOTE_INPUTS_small)
               else if length utxos \<le> NOTE_INPUTS_large
               then Inr (fillUTXOs cr token tree sortedUTXOs utxos NOTE_INPUTS_large)
               else Inr []))"

text \<open>
  \<open>Array.prototype.map\<close> over the tree balances: an empty slot stays empty, the first
  exception ends the map.
\<close>

fun solutions_from ::
    "crypto \<Rightarrow> bytes \<Rightarrow> int \<Rightarrow> nat \<Rightarrow> TokenBalance option list
      \<Rightarrow> error + TXO list option list" where
  "solutions_from cr token totalRequired tree [] = Inr []"
| "solutions_from cr token totalRequired tree (None # slots) =
     (case solutions_from cr token totalRequired (Suc tree) slots of
        Inl e \<Rightarrow> Inl e
      | Inr rest \<Rightarrow> Inr (None # rest))"
| "solutions_from cr token totalRequired tree (Some treeBalance # slots) =
     (case treeSolution cr token totalRequired tree treeBalance of
        Inl e \<Rightarrow> Inl e
      | Inr solution \<Rightarrow>
         (case solutions_from cr token totalRequired (Suc tree) slots of
            Inl e \<Rightarrow> Inl e
          | Inr rest \<Rightarrow> Inr (Some solution # rest)))"

text \<open>
  \<open>Array.prototype.findIndex\<close> with the test \<open>value.length > 0\<close>: it visits empty slots
  too, where the test reads a property of \<open>undefined\<close>.
\<close>

fun findIndex_from :: "nat \<Rightarrow> 'a list option list \<Rightarrow> error + int" where
  "findIndex_from k [] = Inr (- 1)"
| "findIndex_from k (None # slots) = Inl TypeError"
| "findIndex_from k (Some v # slots) =
     (if length v > 0 then Inr (int k) else findIndex_from (Suc k) slots)"

text \<open>
  The tree to spend from: \<open>this.tree || solutions.findIndex(...)\<close>. A pinned tree
  is used when it is not tree \<open>0\<close>.
\<close>

definition chooseTree :: "nat option \<Rightarrow> TXO list option list \<Rightarrow> error + int" where
  "chooseTree pinned solutions =
     (case pinned of
        None \<Rightarrow> findIndex_from 0 solutions
      | Some t \<Rightarrow> if t \<noteq> 0 then Inr (int t) else findIndex_from 0 solutions)"

text \<open>The spending key of an input: its dummy key, or the key of the wallet.\<close>

definition spendingKeyOf ::
    "Wallet \<Rightarrow> BytesData \<Rightarrow> nat \<Rightarrow> TXO \<Rightarrow> error + bytes" where
  "spendingKeyOf w encKey chain utxo =
     (let walletKey =
            (case getKeypair w encKey (txo_index utxo) (txo_change utxo) (Some chain) of
               Inl e \<Rightarrow> Inl e
             | Inr keypair \<Rightarrow> Inr (privateKey keypair))
      in case txo_dummyKey utxo of
           None \<Rightarrow> walletKey
         | Some dummyKey \<Rightarrow> if dummyKey \<noteq> [] then Inr dummyKey else walletKey)"

record SpendValues =
  sv_spendingKeys :: "BytesData list"
  sv_nullifiers :: "BytesData list"
  sv_pathElements :: "BytesData list list"
  sv_pathIndices :: "BytesData list"

text \<open>
  The loop over the chosen solution that collects spending keys, nullifiers, path
  elements and path indices, one of each for every input.
\<close>

fun spendValues ::
    "crypto \<Rightarrow> Wallet \<Rightarrow> BytesData \<Rightarrow> nat \<Rightarrow> nat \<Rightarrow> TXO list \<Rightarrow> error + SpendValues" where
  "spendValues cr w encKey chain tree [] =
     Inr \<lparr> sv_spendingKeys = [], sv_nullifiers = [], sv_pathElements = [],
           sv_pathIndices = [] \<rparr>"
| "spendValues cr w encKey chain tree (utxo # utxos) =
     (case spendingKeyOf w encKey chain utxo of
        Inl e \<Rightarrow> Inl e
      | Inr key \<Rightarrow>
         (case (if truthy (txo_dummyKey utxo)
                then Inr (replicate depths_erc20 (Hex [0]))
                else (case merkletree w chain of
                        None \<Rightarrow> Inl TypeError
                      | Some mt \<Rightarrow>
                          Inr (map Hex (getProofElements mt tree (txo_position utxo))))) of
            Inl e \<Rightarrow> Inl e
          | Inr elements \<Rightarrow>
             (case spendValues cr w encKey chain tree utxos of
                Inl e \<Rightarrow> Inl e
              | Inr rest \<Rightarrow>
                  Inr \<lparr> sv_spendingKeys = Hex key # sv_spendingKeys rest,
                        sv_nullifiers =
                          Hex (getNullifier cr key tree (txo_position utxo))
                            # sv_nullifiers rest,
                        sv_pathElements = elements # sv_pathElements rest,
                        sv_pathIndices = BN (int (txo_position utxo))
                            # sv_pathIndices rest \<rparr>)))"

text \<open>A dummy output, the \<open>k\<close>-th the builder makes.\<close>

definition dummyOutput :: "crypto \<Rightarrow> bytes \<Rightarrow> nat \<Rightarrow> ERC20Note" where
  "dummyOutput cr token k =
     \<lparr> note_pubkey =
         privateKeyToPubKey cr (seedToPrivateKey cr (random cr (DummyOutputKey k))),
       note_random = random cr (DummyOutputRandom k),
       note_amount = BN 0,
       note_token = token \<rparr>"

text \<open>
  The output notes: the outputs of the transaction, the change note, and dummy notes
  up to \<open>NOTE_OUTPUTS\<close>.
\<close>

definition outputNotes ::
    "crypto \<Rightarrow> ERC20Transaction \<Rightarrow> bytes \<Rightarrow> int \<Rightarrow> ERC20Note list" where
  "outputNotes cr tx changePubkey change =
     (let commitments = tx_outputs tx
            @ [\<lparr> note_pubkey = changePubkey,
                  note_random = random cr ChangeRandom,
                  note_amount = BN change,
                  note_token = tx_token tx \<rparr>]
      in commitments
           @ map (dummyOutput cr (tx_token tx)) [0..<NOTE_OUTPUTS - length commitments])"

record OutputCiphertext =
  oc_senderPubKey :: bytes
  oc_ciphertext :: "bytes list"
  oc_revealKey :: "bytes list"

text \<open>The ciphertext of the \<open>k\<close>-th output note.\<close>

definition outputCiphertext ::
    "crypto \<Rightarrow> Wallet \<Rightarrow> BytesData \<Rightarrow> nat \<times> ERC20Note \<Rightarrow> error + OutputCiphertext" where
  "outputCiphertext cr w encKey numbered =
     (case numbered of
        (k, commitment) \<Rightarrow>
          (let senderPrivateKey = seedToPrivateKey cr (random cr (SenderKey k));
               senderPubKey = privateKeyToPubKey cr senderPrivateKey
           in case ecdh cr senderPrivateKey (note_pubkey commitment) of
                Inl e \<Rightarrow> Inl e
              | Inr sharedKey \<Rightarrow>
                 (let encrypted = note_encrypt cr commitment sharedKey (random cr (NoteIV k))
                  in case getViewKey cr w encKey of
                       Inl e \<Rightarrow> Inl e
                     | Inr viewKey \<Rightarrow>
                        (let revealKey = aes_ctr_encrypt cr [sharedKey] viewKey
                                           (random cr (RevealIV k))
                         in Inr \<lparr> oc_senderPubKey = senderPubKey,
                                   oc_ciphertext =
                                     padToLength (Hex (ct_iv encrypted)) 32
                                       # ct_data encrypted,
                                   oc_revealKey = ct_iv revealKey # ct_data revealKey \<rparr>))))"

text \<open>The values of one output that enter the ciphertext hash.\<close>

definition ciphertextWords :: "crypto \<Rightarrow> OutputCiphertext \<Rightarrow> error + bytes list" where
  "ciphertextWords cr commitment =
     (case unpack cr (oc_senderPubKey commitment) of
        Inl e \<Rightarrow> Inl e
      | Inr (x, y) \<Rightarrow> Inr ([x, y] @ oc_ciphertext commitment @ oc_revealKey commitment))"

text \<open>\<open>Array.prototype.map\<close> with a callback that can raise: the first exception wins.\<close>

definition mapE :: "('a \<Rightarrow> error + 'b) \<Rightarrow> 'a list \<Rightarrow> error + 'b list" where
  "mapE f xs = awaitAll (map f xs)"

text \<open>
  The private inputs as \<open>generateInputs\<close> formats them from the values it has
  collected.
\<close>

definition formatInputs ::
    "crypto \<Rightarrow> ERC20Transaction \<Rightarrow> nat \<Rightarrow> bytes \<Rightarrow> TXO list \<Rightarrow> SpendValues
      \<Rightarrow> ERC20Note list \<Rightarrow> bytes list \<Rightarrow> int \<Rightarrow> ERC20PrivateInputs" where
  "formatInputs cr tx tree root solution spend commitments hashes ctHash =
     \<lparr> adaptID = BN (numberify (Hex (adaptIDhash cr tx)) mod SNARK_PRIME),
       tokenField = Hex (tx_token tx),
       depositAmount = BN (tx_deposit tx),
       withdrawAmount = BN (tx_withdraw tx),
       outputTokenField =
         (if tx_deposit tx > 0 \<or> tx_withdraw tx > 0 then Hex (tx_token tx) else Hex [0]),
       outputEthAddress =
         (if truthy (tx_withdrawAddress tx)
          then (case tx_withdrawAddress tx of
                  Some address \<Rightarrow> Hex address
                | None \<Rightarrow> Hex [0])
          else Hex [0]),
       randomIn = map (\<lambda>utxo. Hex (note_random (txo_note utxo))) solution,
       valuesIn = map (\<lambda>utxo. note_amount (txo_note utxo)) solution,
       spendingKeys = sv_spendingKeys spend,
       treeNumber = BN (int tree),
       merkleRoot = Hex root,
       nullifiers = sv_nullifiers spend,
       pathElements = sv_pathElements spend,
       pathIndices = sv_pathIndices spend,
       recipientPK = map (\<lambda>output. Hex (note_pubkey output)) commitments,
       randomOut = map (\<lambda>output. Hex (note_random output)) commitments,
       valuesOut = map note_amount commitments,
       commitmentsOut = map Hex hashes,
       ciphertextHash = BN ctHash \<rparr>"

text \<open>The commitments \<open>generateInputs\<close> returns beside the inputs.\<close>

definition formatCommitments :: "bytes list \<Rightarrow> OutputCiphertext list \<Rightarrow> CommitmentOut list" where
  "formatCommitments hashes ciphertext =
     map (\<lambda>(commitmentHash, encrypted).
            \<lparr> co_hash = commitmentHash,
              co_ciphertext = oc_ciphertext encrypted,
              co_senderPubKey = oc_senderPubKey encrypted,
              co_revealKey = oc_revealKey encrypted \<rparr>)
       (zip hashes ciphertext)"

text \<open>
  The second half of \<open>generateInputs\<close>, from the loop over the chosen solution to the
  returned object.
\<close>

definition assembleInputs ::
    "crypto \<Rightarrow> Wallet \<Rightarrow> ERC20Transaction \<Rightarrow> BytesData \<Rightarrow> nat \<Rightarrow> TXO list
      \<Rightarrow> error + GeneratedInputs" where
  "assembleInputs cr w tx encKey tree solution =
     (case spendValues cr w encKey (tx_chainID tx) tree solution of
        Inl e \<Rightarrow> Inl e
      | Inr spend \<Rightarrow>
     (let totalIn = sumUTXOs solution + tx_deposit tx;
          totalOut = sumNotes (tx_outputs tx) + tx_withdraw tx;
          change = totalIn - totalOut
      in case getKeypair w encKey 0 True None of
           Inl e \<Rightarrow> Inl e
         | Inr changeKey \<Rightarrow>
     (let commitments = outputNotes cr tx (kp_pubkey changeKey) change
      in case mapE (outputCiphertext cr w encKey)
                (zip [0..<length commitments] commitments) of
           Inl e \<Rightarrow> Inl e
         | Inr ciphertext \<Rightarrow>
     (case mapE (ciphertextWords cr) ciphertext of
        Inl e \<Rightarrow> Inl e
      | Inr words \<Rightarrow>
     (let ciphertextHash =
            numberify (Hex (hash_sha256 cr
              (combine (map (\<lambda>v. Hex (padToLength (Hex v) 32)) (concat words)))))
            mod SNARK_PRIME
      in case merkletree w (tx_chainID tx) of
           None \<Rightarrow> Inl TypeError
         | Some mt \<Rightarrow>
     (case mapE (note_hash cr) commitments of
        Inl e \<Rightarrow> Inl e
      | Inr hashes \<Rightarrow>
          Inr \<lparr> gi_inputs =
                  formatInputs cr tx tree (getRoot mt tree) solution spend commitments
                    hashes ciphertextHash,
                gi_commitments = formatCommitments hashes ciphertext \<rparr>))))))"

text \<open>The sum of the balances of the trees; \<open>reduce\<close> passes over empty slots.\<close>

definition sumBalances :: "TokenBalance option list \<Rightarrow> int" where
  "sumBalances treeSortedBalances =
     foldl (\<lambda>left slot. case slot of
                           None \<Rightarrow> left
                         | Some right \<Rightarrow> left + tb_balance right)
       0 treeSortedBalances"

text \<open>
  The first half of \<open>generateInputs\<close>, from the balances by tree to the choice of the
  tree, on the outputs \<open>wallet.TXOs\<close> returned.
\<close>

definition buildInputs ::
    "crypto \<Rightarrow> Wallet \<Rightarrow> ERC20Transaction \<Rightarrow> BytesData \<Rightarrow> TXO list
      \<Rightarrow> error + GeneratedInputs" where
  "buildInputs cr w tx encKey txos =
     (let totalRequired = sumNotes (tx_outputs tx) + tx_withdraw tx - tx_deposit tx;
          treeSortedBalances =
            (case balancesByTree txos (tx_token tx) of
               None \<Rightarrow> []
             | Some byTree \<Rightarrow> byTree);
          balance = sumBalances treeSortedBalances
      in if totalRequired > balance then Inl WalletBalanceTooLow
         else
          (case solutions_from cr (tx_token tx) totalRequired 0 treeSortedBalances of
             Inl e \<Rightarrow> Inl e
           | Inr solutions \<Rightarrow>
              (case chooseTree (tx_tree tx) solutions of
                 Inl e \<Rightarrow> Inl e
               | Inr tree \<Rightarrow>
                   if tree = - 1 then Inl NeedsConsolidation
                   else if tx_withdraw tx > 0 \<and> tx_withdrawAddress tx = None
                   then Inl WithdrawAddressNotSet
                   else if tx_withdraw tx = 0 \<and> tx_withdrawAddress tx \<noteq> None
                   then Inl WithdrawShouldntBeSet
                   else
                    (case array_get solutions tree of
                       None \<Rightarrow> Inl TypeError
                     | Some solution \<Rightarrow>
                         assembleInputs cr w tx encKey (nat tree) solution))))"

text \<open>\<open>ERC20Transaction.generateInputs\<close>.\<close>

definition generateInputs ::
    "crypto \<Rightarrow> Wallet \<Rightarrow> ERC20Transaction \<Rightarrow> BytesData \<Rightarrow> WalletState
      \<Rightarrow> WalletState \<times> (error + GeneratedInputs)" where
  "generateInputs cr w tx encKey st =
     (if length (tx_outputs tx) > 2 then (st, Inl TooManyOutputs)
      else
       (case tokenMismatch (tx_token tx) 0 (tx_outputs tx) of
          Some index \<Rightarrow> (st, Inl (TokenIDMismatch index))
        | None \<Rightarrow>
           (case TXOs cr w (tx_chainID tx) st of
              (st', Inl e) \<Rightarrow> (st', Inl e)
            | (st', Inr txos) \<Rightarrow> (st', buildInputs cr w tx encKey txos))))"

text \<open>The circuit \<open>ERC20Transaction.prove\<close> hands the inputs to.\<close>

definition circuitFor :: "ERC20PrivateInputs \<Rightarrow> Circuits" where
  "circuitFor inputs =
     (if length (nullifiers inputs) = NOTE_INPUTS_small then erc20small else erc20large)"

record ERC20TransactionSerialized =
  ser_proof :: Proof
  ser_adaptID :: AdaptID
  ser_deposit :: BytesData
  ser_withdraw :: BytesData
  ser_token :: BytesData
  ser_withdrawAddress :: BytesData
  ser_treeNumber :: BytesData
  ser_merkleRoot :: BytesData
  ser_nullifiers :: "BytesData list"
  ser_commitments :: "CommitmentOut list"

text \<open>
  \<open>ERC20Transaction.prove\<close> (the constant token type and sub ID of the serialized
  transaction are left out).
\<close>

definition transaction_prove ::
    "prover_env \<Rightarrow> crypto \<Rightarrow> Wallet \<Rightarrow> ERC20Transaction \<Rightarrow> BytesData \<Rightarrow> WalletState
      \<Rightarrow> WalletState \<times> (error + ERC20TransactionSerialized)" where
  "transaction_prove env cr w tx encKey st =
     (case generateInputs cr w tx encKey st of
        (st', Inl e) \<Rightarrow> (st', Inl e)
      | (st', Inr generated) \<Rightarrow>
         (case prove env (circuitFor (gi_inputs generated)) (gi_inputs generated) of
            Inl e \<Rightarrow> (st', Inl e)
          | Inr (proof, publicInputs) \<Rightarrow>
              (st', Inr
                \<lparr> ser_proof = proof,
                  ser_adaptID = tx_adaptID tx,
                  ser_deposit = depositAmount (gi_inputs generated),
                  ser_withdraw = withdrawAmount (gi_inputs generated),
                  ser_token = outputTokenField (gi_inputs generated),
                  ser_withdrawAddress = outputEthAddress (gi_inputs generated),
                  ser_treeNumber = treeNumber (gi_inputs generated),
                  ser_merkleRoot = merkleRoot (gi_inputs generated),
                  ser_nullifiers = nullifiers (gi_inputs generated),
                  ser_commitments = gi_commitments generated \<rparr>)))"

section \<open>Descriptions used in the statements\<close>

text \<open>
  The record of position \<open>p\<close> for a key: the record of the leaf at that position
  when the leaf can be read and its note is addressed to the key, else none.
\<close>

definition recordedAt ::
    "crypto \<Rightarrow> Keypair \<Rightarrow> nat \<Rightarrow> bool \<Rightarrow> nat \<Rightarrow> nat \<Rightarrow> Commitment option list \<Rightarrow> nat
      \<Rightarrow> StoredTXO option" where
  "recordedAt cr key index change tree chain leaves p =
     (if p < length leaves
      then (case leaves ! p of
              None \<Rightarrow> None
            | Some leaf \<Rightarrow>
               (case readLeaf cr key leaf of
                  Inl e \<Rightarrow> None
                | Inr nt \<Rightarrow>
                    if note_pubkey nt = kp_pubkey key
                    then Some (snd (txoPut cr key index change tree chain p leaf nt))
                    else None))
      else None)"

text \<open>
  Every leaf of the batch can be read with the key of index \<open>k\<close>; and index \<open>k\<close> is
  in use: some leaf of the batch is addressed to its key.
\<close>

definition readable :: "crypto \<Rightarrow> Wallet \<Rightarrow> bool \<Rightarrow> Commitment option list \<Rightarrow> nat \<Rightarrow> bool" where
  "readable cr w change leaves k =
     list_all (\<lambda>slot. case slot of
                        None \<Rightarrow> True
                      | Some leaf \<Rightarrow>
                         (case readLeaf cr (derive_key w change k) leaf of
                            Inl e \<Rightarrow> False
                          | Inr nt \<Rightarrow> True))
       leaves"

definition inUse ::
    "crypto \<Rightarrow> Wallet \<Rightarrow> bool \<Rightarrow> nat \<Rightarrow> nat \<Rightarrow> Commitment option list \<Rightarrow> nat \<Rightarrow> bool" where
  "inUse cr w change tree chain leaves k =
     list_ex (\<lambda>p. recordedAt cr (derive_key w change k) k change tree chain leaves p \<noteq> None)
       [0..<length leaves]"

text \<open>
  The position from which \<open>scan\<close> fetches the leaves of a tree: the scanned height of
  the stored wallet details, or 0 for a tree they do not know yet.
\<close>

definition scannedHeightOf :: "WalletState \<Rightarrow> nat \<Rightarrow> nat" where
  "scannedHeightOf st tree =
     (let heights = treeScannedHeights (getWalletDetails st)
      in if tree < length heights then heights ! tree else 0)"

text \<open>The highest index below \<open>n\<close> that is in use, or 0 when none is.\<close>

fun lastUsed :: "(nat \<Rightarrow> bool) \<Rightarrow> nat \<Rightarrow> nat" where
  "lastUsed used 0 = 0"
| "lastUsed used (Suc n) = (if used n then n else lastUsed used n)"

section \<open>Concrete instances\<close>

text \<open>
  A small prover environment on which the definitions can be run: the prover always
  returns the same proof, and the verifier accepts exactly that proof in the prover's
  own coordinate order (and nothing at all when it is not \<open>honest\<close>).
\<close>

definition demo_raw_proof :: Groth16Proof where
  "demo_raw_proof = \<lparr> pi_a = (1, 2), pi_b = ((3, 4), (5, 6)), pi_c = (7, 8) \<rparr>"

definition demo_prover_env :: "bool \<Rightarrow> prover_env" where
  "demo_prover_env honest =
     \<lparr> artifactsGetter = (\<lambda>circuit. \<lparr> zkey = [1], wasm = [2], vkey = [3] \<rparr>),
       sha256 = (\<lambda>preimage. [1, 2, 3]),
       unpackPoint = (\<lambda>key. Some (key, key)),
       native_prove = (\<lambda>formatted. Some [4]),
       groth16_prove = (\<lambda>zk wtns. Some demo_raw_proof),
       groth16_verify = (\<lambda>vk signals proof. honest \<and> proof = demo_raw_proof) \<rparr>"

definition demo_private_inputs :: ERC20PrivateInputs where
  "demo_private_inputs =
     \<lparr> adaptID = BN 0, tokenField = Hex [1], depositAmount = BN 0, withdrawAmount = BN 0,
       outputTokenField = Hex [0], outputEthAddress = Hex [0],
       randomIn = [Hex [1], Hex [2]], valuesIn = [BN 5, BN 0],
       spendingKeys = [Hex [3], Hex [4]], treeNumber = BN 0, merkleRoot = Hex [9],
       nullifiers = [Hex [5], Hex [6]], pathElements = [[Hex [0]], [Hex [0]]],
       pathIndices = [BN 0, BN 0], recipientPK = [Hex [7], Hex [8], Hex [9]],
       randomOut = [Hex [1], Hex [2], Hex [3]], valuesOut = [BN 5, BN 0, BN 0],
       commitmentsOut = [Hex [1], Hex [2], Hex [3]], ciphertextHash = BN 1 \<rparr>"

text \<open>A codec that keeps the prefix and the data side by side.\<close>

definition pair_codec :: "(string \<times> bytes) bech32_buffer" where
  "pair_codec = \<lparr> bech32encode = (\<lambda>prefix data. (prefix, data)), bech32decode = Some \<rparr>"

text \<open>
  A wallet on which the scanner and the transaction builder can be run. A key pair
  is the pair of the flag of its node and its index; a serialized note is the two
  bytes of its public key and one byte of amount, its token is always \<open>01\<close>; the
  cipher is the identity.
\<close>

definition demo_keypair :: "bool \<Rightarrow> nat \<Rightarrow> Keypair" where
  "demo_keypair change index =
     \<lparr> privateKey = [if change then 1 else 0, of_nat index],
       kp_pubkey = [if change then 1 else 0, of_nat index] \<rparr>"

definition demo_deserialize :: "bytes \<Rightarrow> error + ERC20Note" where
  "demo_deserialize data =
     (case data of
        [flag, index, amount] \<Rightarrow>
          Inr \<lparr> note_pubkey = [flag, index], note_random = [], note_amount = Hex [amount],
                note_token = [1] \<rparr>
      | _ \<Rightarrow> Inl MalformedNote)"

definition demo_crypto :: crypto where
  "demo_crypto =
     \<lparr> hash_sha256 = (\<lambda>preimage. take 2 preimage),
       ecdh = (\<lambda>sk pk. if pk = [] then Inl InvalidPoint else Inr (sk @ pk)),
       unpack = (\<lambda>point. Inr (point, point)),
       seedToPrivateKey = (\<lambda>seed. seed),
       privateKeyToPubKey = (\<lambda>sk. 255 # sk),
       aes256ctr = (\<lambda>key iv blocks. blocks),
       note_hash = (\<lambda>note. Inr (note_pubkey note @ hexlify (note_amount note))),
       note_decrypt = (\<lambda>ciphertext sharedKey. demo_deserialize (concat ciphertext)),
       note_deserialize = demo_deserialize,
       note_serialize = (\<lambda>note. note_pubkey note @ hexlify (note_amount note)),
       getNullifier = (\<lambda>sk tree position. sk @ [of_nat tree, of_nat position]),
       random = (\<lambda>d. [9]) \<rparr>"

text \<open>A mirror of chain 1 with a single tree holding the given leaves.\<close>

definition demo_tree :: "Commitment list \<Rightarrow> MerkleTree" where
  "demo_tree leaves =
     \<lparr> mt_chainID = 1,
       latestTree = 0,
       getTreeLength = (\<lambda>tree. if tree = 0 then length leaves else 0),
       getCommitment = (\<lambda>tree index.
          if tree = 0 \<and> index < length leaves then Some (leaves ! index) else None),
       getNullified = (\<lambda>nullifier. None),
       getProofElements = (\<lambda>tree position. replicate 16 [0]),
       getRoot = (\<lambda>tree. [0]) \<rparr>"

definition demo_wallet :: "Commitment list \<Rightarrow> Wallet" where
  "demo_wallet leaves =
     \<lparr> encryptionKey = [1],
       gapLimit = 5,
       derive_key = demo_keypair,
       merkletree = (\<lambda>chain. if chain = 1 then Some (demo_tree leaves) else None) \<rparr>"

definition empty_state :: WalletState where
  "empty_state = \<lparr> db_txos = [], db_details = None, scanLockPerChain = [] \<rparr>"

text \<open>A generated commitment whose note is addressed to no key of the wallet.\<close>

definition foreign_note :: Commitment where
  "foreign_note = GeneratedCommitment [0] [7, 7, 1]"

text \<open>A generated commitment whose note is addressed to a primary key.\<close>

definition note_to :: "nat \<Rightarrow> nat \<Rightarrow> Commitment" where
  "note_to index amount = GeneratedCommitment [0] [0, of_nat index, of_nat amount]"

text \<open>
  The stored record of a note of the given amount received at a tree position under
  primary index 0, and a wallet state that holds such records.
\<close>

definition stored_note :: "nat \<Rightarrow> nat \<Rightarrow> nat \<Rightarrow> (nat \<times> nat \<times> nat) \<times> StoredTXO" where
  "stored_note tree position amount =
     ((1, tree, position),
      \<lparr> st_index = 0, st_change = False, st_spendtxid = None, st_txid = [0],
        st_nullifier = [0, 0, of_nat tree, of_nat position],
        st_decrypted = [0, 0, of_nat amount] \<rparr>)"

definition state_with :: "((nat \<times> nat \<times> nat) \<times> StoredTXO) list \<Rightarrow> WalletState" where
  "state_with records = \<lparr> db_txos = records, db_details = None, scanLockPerChain = [] \<rparr>"

text \<open>
  A transaction of token \<open>01\<close> on chain 1 that sends the amount to the key \<open>08 08\<close>,
  with or without a pinned tree.
\<close>

definition transfer :: "nat \<Rightarrow> nat option \<Rightarrow> ERC20Transaction" where
  "transfer amount pinned =
     \<lparr> tx_adaptID = \<lparr> adapt_contract = Hex [0], adapt_parameters = Hex [0] \<rparr>,
       tx_chainID = 1,
       tx_token = [1],
       tx_outputs = [\<lparr> note_pubkey = [8, 8], note_random = [3],
                       note_amount = Hex [of_nat amount], note_token = [1] \<rparr>],
       tx_deposit = 0,
       tx_withdraw = 0,
       tx_withdrawAddress = None,
       tx_tree = pinned \<rparr>"

text \<open>
  The output the wallet loads from a stored record of \<open>stored_note\<close>, and the records
  of eleven notes of one amount in tree 0.
\<close>

definition held_note :: "nat \<Rightarrow> nat \<Rightarrow> nat \<Rightarrow> TXO" where
  "held_note tree position amount =
     \<lparr> txo_tree = tree, txo_position = position, txo_index = 0, txo_change = False,
       txo_txid = [0], txo_spendtxid = None, txo_dummyKey = None,
       txo_note = \<lparr> note_pubkey = [0, 0], note_random = [],
                    note_amount = Hex [of_nat amount], note_token = [1] \<rparr> \<rparr>"

definition eleven_notes :: "nat \<Rightarrow> ((nat \<times> nat \<times> nat) \<times> StoredTXO) list" where
  "eleven_notes amount = map (\<lambda>position. stored_note 0 position amount) [0..<11]"

definition eleven_held :: "nat \<Rightarrow> TXO list" where
  "eleven_held amount = map (\<lambda>position. held_note 0 position amount) [0..<11]"

definition eleven_balance :: "nat \<Rightarrow> TokenBalance" where
  "eleven_balance amount =
     \<lparr> tb_balance = 11 * int amount, tb_utxos = eleven_held amount \<rparr>"

text \<open>
  The state of a wallet that has scanned its trees up to the given heights and found
  the given primary height, with no record kept.
\<close>

definition scanned_state :: "nat list \<Rightarrow> nat \<Rightarrow> WalletState" where
  "scanned_state heights height =
     \<lparr> db_txos = [],
       db_details = Some \<lparr> treeScannedHeights = heights, primaryHeight = height,
                            changeHeight = 0 \<rparr>,
       scanLockPerChain = [] \<rparr>"

section \<open>Properties of the byte conversions\<close>

lemma unat_byte_of_nat: "n < 256 \<Longrightarrow> unat (of_nat n :: 8 word) = n"
  by (simp add: unat_of_nat)

lemma nat_of_bytes_append:
  "nat_of_bytes (xs @ [x]) = nat_of_bytes xs * 256 + unat x"
  by (simp add: nat_of_bytes_def)

lemma nat_of_bytes_of_nat: "nat_of_bytes (bytes_of_nat n) = n"
proof (induction n rule: bytes_of_nat.induct)
  case (1 n)
  show ?case
  proof (cases "n < 256")
    case True
    then show ?thesis
      by (simp add: bytes_of_nat.simps [of n] nat_of_bytes_def unat_byte_of_nat)
  next
    case False
    have "n mod 256 < 256" by simp
    then have u: "unat (of_nat (n mod 256) :: 8 word) = n mod 256"
      by (rule unat_byte_of_nat)
    from False 1 have "nat_of_bytes (bytes_of_nat (n div 256)) = n div 256" by simp
    with False u show ?thesis
      by (simp add: bytes_of_nat.simps [of n] nat_of_bytes_append)
  qed
qed

section \<open>The public-input hash\<close>

lemma hashInputs_preimage:
  "hashInputs sha inputs = hexlify (BN (hashOfInputs_spec sha inputs))"
  by (simp add: hashInputs_def hashOfInputs_spec_def combine_def SNARK_PRIME_def comp_def)

text \<open>
  C2. For every ERC-20 public-input object, \<open>Prover.hashInputs\<close> returns the SHA-256
  digest of the concatenation, in this order, of adaptID, depositAmount, withdrawAmount,
  outputTokenField, outputEthAddress, treeNumber, merkleRoot, each nullifier, each
  output commitment and ciphertextHash, each left-padded to 32 bytes, reduced modulo
  the SNARK prime: the returned bytes are the byte form of that field element, they
  denote it, and it lies in the field.
\<close>

theorem hashInputs_is_spec_hash:
  "hashInputs sha inputs = hexlify (BN (hashOfInputs_spec sha inputs))
   \<and> numberify (Hex (hashInputs sha inputs)) = hashOfInputs_spec sha inputs
   \<and> 0 \<le> hashOfInputs_spec sha inputs
   \<and> hashOfInputs_spec sha inputs < SNARK_PRIME"
proof -
  have nonneg: "0 \<le> hashOfInputs_spec sha inputs"
    by (simp add: hashOfInputs_spec_def)
  have below: "hashOfInputs_spec sha inputs < SNARK_PRIME"
    by (simp add: hashOfInputs_spec_def SNARK_PRIME_def)
  have "numberify (Hex (hashInputs sha inputs)) = hashOfInputs_spec sha inputs"
    using nonneg by (simp add: hashInputs_preimage nat_of_bytes_of_nat)
  with nonneg below show ?thesis
    by (simp add: hashInputs_preimage)
qed

section \<open>Proving and verifying\<close>

lemma format_round_trip:
  "formatProofForVerifier (formatProofFromProver raw) = Some raw"
  by (simp add: formatProofForVerifier_def formatProofFromProver_def element_def element2_def)

lemma verify_formatted:
  "verify env circuit inputs (formatProofFromProver raw) =
     Inr (groth16_verify env (vkey (artifactsGetter env circuit))
            [hashInputs (sha256 env) inputs] raw)"
  by (simp add: verify_def format_round_trip)

lemma prove_Inr_cases:
  assumes "prove env circuit inputs = Inr (pf, pub)"
  obtains fi wtns raw where
    "formatPrivateInputs env inputs True = Inr fi"
    "native_prove env fi = Some wtns"
    "groth16_prove env (zkey (artifactsGetter env circuit)) wtns = Some raw"
    "pf = formatProofFromProver raw"
    "pub = privateToPublicInputs inputs"
    "groth16_verify env (vkey (artifactsGetter env circuit))
       [hashInputs (sha256 env) pub] raw"
  using assms
  by (auto simp: prove_def Let_def verify_formatted split: sum.splits option.splits if_splits)

lemma demo_format:
  "formatPrivateInputs (demo_prover_env h) demo_private_inputs True =
     Inr (case formatPrivateInputs (demo_prover_env h) demo_private_inputs True of
            Inr x \<Rightarrow> x)"
  by (simp add: formatPrivateInputs_def demo_prover_env_def demo_private_inputs_def Let_def)

lemma demo_prove_honest:
  "prove (demo_prover_env True) erc20small demo_private_inputs =
     Inr (formatProofFromProver demo_raw_proof, privateToPublicInputs demo_private_inputs)"
  by (simp add: prove_def Let_def verify_formatted formatPrivateInputs_def
      demo_prover_env_def demo_private_inputs_def)

text \<open>
  C1. Whenever \<open>Prover.prove\<close> returns, the returned public inputs are those derived
  from the private inputs and \<open>Prover.verify\<close> accepts the returned proof for them; and
  when the witness and the Groth16 proof were produced but the re-run verification
  does not validate, \<open>prove\<close> raises the proof-generation failure.
\<close>

theorem prove_self_verifies:
  "(prove env circuit inputs = Inr (pf, pub) \<longrightarrow>
      pub = privateToPublicInputs inputs \<and> verify env circuit pub pf = Inr True)
   \<and> (formatPrivateInputs env inputs True = Inr fi
        \<and> native_prove env fi = Some wtns
        \<and> groth16_prove env (zkey (artifactsGetter env circuit)) wtns = Some raw
        \<and> verify env circuit (privateToPublicInputs inputs) (formatProofFromProver raw)
            \<noteq> Inr True
      \<longrightarrow> prove env circuit inputs = Inl ProofGenerationFailed)"
proof (intro conjI impI)
  assume ok: "prove env circuit inputs = Inr (pf, pub)"
  then show "pub = privateToPublicInputs inputs"
    by (rule prove_Inr_cases)
  from ok show "verify env circuit pub pf = Inr True"
    by (rule prove_Inr_cases) (simp add: verify_formatted)
next
  assume "formatPrivateInputs env inputs True = Inr fi
        \<and> native_prove env fi = Some wtns
        \<and> groth16_prove env (zkey (artifactsGetter env circuit)) wtns = Some raw
        \<and> verify env circuit (privateToPublicInputs inputs) (formatProofFromProver raw)
            \<noteq> Inr True"
  then show "prove env circuit inputs = Inl ProofGenerationFailed"
    by (simp add: prove_def Let_def verify_formatted)
qed

theorem prove_self_verifies_witness:
  "prove (demo_prover_env True) erc20small demo_private_inputs =
     Inr (formatProofFromProver demo_raw_proof, privateToPublicInputs demo_private_inputs)
   \<and> verify (demo_prover_env True) erc20small (privateToPublicInputs demo_private_inputs)
        (formatProofFromProver demo_raw_proof) = Inr True
   \<and> prove (demo_prover_env False) erc20small demo_private_inputs =
        Inl ProofGenerationFailed"
proof -
  have ok: "prove (demo_prover_env True) erc20small demo_private_inputs =
     Inr (formatProofFromProver demo_raw_proof, privateToPublicInputs demo_private_inputs)"
    by (rule demo_prove_honest)
  have f: "formatPrivateInputs (demo_prover_env False) demo_private_inputs True =
     Inr (case formatPrivateInputs (demo_prover_env False) demo_private_inputs True of
            Inr x \<Rightarrow> x)"
    by (rule demo_format)
  have w: "native_prove (demo_prover_env False)
      (case formatPrivateInputs (demo_prover_env False) demo_private_inputs True of
         Inr x \<Rightarrow> x) = Some [4]"
    by (simp add: demo_prover_env_def)
  have g: "groth16_prove (demo_prover_env False)
      (zkey (artifactsGetter (demo_prover_env False) erc20small)) [4] = Some demo_raw_proof"
    by (simp add: demo_prover_env_def)
  have v: "verify (demo_prover_env False) erc20small
      (privateToPublicInputs demo_private_inputs) (formatProofFromProver demo_raw_proof)
      \<noteq> Inr True"
    by (simp add: verify_formatted demo_prover_env_def)
  from prove_self_verifies [of "demo_prover_env True" erc20small demo_private_inputs
      "formatProofFromProver demo_raw_proof" "privateToPublicInputs demo_private_inputs"]
    ok
  have "verify (demo_prover_env True) erc20small (privateToPublicInputs demo_private_inputs)
        (formatProofFromProver demo_raw_proof) = Inr True"
    by simp
  moreover from prove_self_verifies [of "demo_prover_env False" erc20small
      demo_private_inputs _ _ _ "[4]" demo_raw_proof] f w g v
  have "prove (demo_prover_env False) erc20small demo_private_inputs =
        Inl ProofGenerationFailed"
    by blast
  ultimately show ?thesis using ok by simp
qed



section \<open>The address codec\<close>

lemma prefixes_value:
  "prefixes = replicate 1 None @ [Some ''rgeth''] @ replicate 1 None @ [Some ''rgtestropsten'']
     @ replicate 1 None @ [Some ''rgtestgoerli''] @ replicate 50 None @ [Some ''rgbsc'']
     @ replicate 80 None @ [Some ''rgpoly'']"
  by (simp add: prefixes_def array_set_def)

lemma indexOf_from_replicate_None:
  "indexOf_from k (replicate n None @ xs) v = indexOf_from (k + n) xs v"
  by (induction n arbitrary: k) auto

lemma indexOf_prefixes:
  "indexOf prefixes p =
     (if p = ''rgeth'' then 1 else if p = ''rgtestropsten'' then 3
      else if p = ''rgtestgoerli'' then 5 else if p = ''rgbsc'' then 56
      else if p = ''rgpoly'' then 137 else - 1)"
  unfolding indexOf_def prefixes_value
  by (simp add: indexOf_from_replicate_None del: replicate.simps replicate_Suc)

lemma array_get_array_set:
  "array_get (array_set xs i v) j = (if j = int i then Some v else array_get xs j)"
proof (cases "0 \<le> j")
  case False
  then show ?thesis by (simp add: array_get_def)
next
  case True
  then obtain k where k: "j = int k"
    by (metis nat_0_le)
  show ?thesis
    unfolding k
    by (auto simp: array_get_def array_set_def nth_append nth_list_update)
qed

lemma array_get_empty: "array_get [] j = None"
  by (simp add: array_get_def)

lemma array_get_prefixes:
  "array_get prefixes cid =
     (if cid = 1 then Some ''rgeth'' else if cid = 3 then Some ''rgtestropsten''
      else if cid = 5 then Some ''rgtestgoerli'' else if cid = 56 then Some ''rgbsc''
      else if cid = 137 then Some ''rgpoly'' else None)"
  by (simp add: prefixes_def array_get_array_set array_get_empty)

lemma encode_prefix:
  "encode lib pubkey chainID =
     bech32encode lib (spec_prefix chainID) (hexlify (BN VERSION) @ hexlify pubkey)"
  by (cases chainID)
     (simp_all add: encode_def combine_def spec_prefix_def array_get_prefixes Let_def)

lemma version_byte: "bytes_of_nat (nat \<bar>VERSION\<bar>) = [1]"
  by (simp add: VERSION_def bytes_of_nat.simps [of 1] bytes_of_nat.simps [of "Suc 0"])

lemma decode_encoded:
  assumes "bech32decode lib address = Some (prefix, 1 # key)"
  shows "decode lib address =
     (if prefix = ''rgeth'' then Inr \<lparr> addr_chainID = Some 1, addr_pubkey = key \<rparr>
      else if prefix = ''rgtestropsten'' then Inr \<lparr> addr_chainID = Some 3, addr_pubkey = key \<rparr>
      else if prefix = ''rgtestgoerli'' then Inr \<lparr> addr_chainID = Some 5, addr_pubkey = key \<rparr>
      else if prefix = ''rgbsc'' then Inr \<lparr> addr_chainID = Some 56, addr_pubkey = key \<rparr>
      else if prefix = ''rgpoly'' then Inr \<lparr> addr_chainID = Some 137, addr_pubkey = key \<rparr>
      else if prefix = ''rgany'' then Inr \<lparr> addr_chainID = None, addr_pubkey = key \<rparr>
      else Inl AddressPrefixUnrecognized)"
  using assms
  by (simp add: decode_def Let_def VERSION_def nat_of_bytes_def includes_value_def
      indexOf_prefixes)

text \<open>
  C5. Whenever the Bech32 library decodes what it encodes, decoding an encoded address
  returns the bytes of the public key it was given, and the chain ID it was given when
  that is one of 1, 3, 5, 56 and 137; for any other chain ID, and for none, \<open>encode\<close>
  uses the prefix \<open>rgany\<close> and \<open>decode\<close> returns the key with no chain ID.
\<close>

theorem address_round_trip:
  assumes "\<And>prefix data. bech32decode lib (bech32encode lib prefix data) = Some (prefix, data)"
  shows "decode lib (encode lib pubkey chainID) =
           Inr \<lparr> addr_chainID = (if known_chain chainID then chainID else None),
                 addr_pubkey = hexlify pubkey \<rparr>
         \<and> encode lib pubkey chainID =
             bech32encode lib (spec_prefix chainID) (hexlify (BN VERSION) @ hexlify pubkey)
         \<and> (spec_prefix chainID = ''rgany'' \<longleftrightarrow> \<not> known_chain chainID)"
proof -
  have d: "bech32decode lib (encode lib pubkey chainID) =
      Some (spec_prefix chainID, 1 # hexlify pubkey)"
    by (simp add: encode_prefix assms version_byte)
  have "decode lib (encode lib pubkey chainID) =
           Inr \<lparr> addr_chainID = (if known_chain chainID then chainID else None),
                 addr_pubkey = hexlify pubkey \<rparr>"
    unfolding decode_encoded [OF d]
    by (simp add: spec_prefix_def known_chain_def)
  moreover have "spec_prefix chainID = ''rgany'' \<longleftrightarrow> \<not> known_chain chainID"
    by (simp add: spec_prefix_def known_chain_def)
  ultimately show ?thesis
    by (simp add: encode_prefix)
qed

theorem address_round_trip_witness:
  "decode pair_codec (encode pair_codec (Hex [0, 0, 0, 0]) (Some 1)) =
     Inr \<lparr> addr_chainID = Some 1, addr_pubkey = [0, 0, 0, 0] \<rparr>
   \<and> encode pair_codec (Hex [0, 0, 0, 0]) (Some 1) = (''rgeth'', [1, 0, 0, 0, 0])
   \<and> decode pair_codec (encode pair_codec (Hex [238, 107]) (Some 2)) =
     Inr \<lparr> addr_chainID = None, addr_pubkey = [238, 107] \<rparr>
   \<and> encode pair_codec (Hex [238, 107]) None = (''rgany'', [1, 238, 107])"
proof -
  have rt: "\<And>prefix data.
      bech32decode pair_codec (bech32encode pair_codec prefix data) = Some (prefix, data)"
    by (simp add: pair_codec_def)
  have enc: "\<And>prefix data. bech32encode pair_codec prefix data = (prefix, data)"
    by (simp add: pair_codec_def)
  note t1 = address_round_trip [of pair_codec "Hex [0, 0, 0, 0]" "Some 1", OF rt]
  note t2 = address_round_trip [of pair_codec "Hex [238, 107]" "Some 2", OF rt]
  note t3 = address_round_trip [of pair_codec "Hex [238, 107]" None, OF rt]
  have r1: "decode pair_codec (encode pair_codec (Hex [0, 0, 0, 0]) (Some 1)) =
      Inr \<lparr> addr_chainID = Some 1, addr_pubkey = [0, 0, 0, 0] \<rparr>"
    using conjunct1 [OF t1] by (simp add: known_chain_def)
  have e1: "encode pair_codec (Hex [0, 0, 0, 0]) (Some 1) = (''rgeth'', [1, 0, 0, 0, 0])"
    using conjunct1 [OF conjunct2 [OF t1]] by (simp add: spec_prefix_def version_byte enc)
  have r2: "decode pair_codec (encode pair_codec (Hex [238, 107]) (Some 2)) =
      Inr \<lparr> addr_chainID = None, addr_pubkey = [238, 107] \<rparr>"
    using conjunct1 [OF t2] by (simp add: known_chain_def)
  have e2: "encode pair_codec (Hex [238, 107]) None = (''rgany'', [1, 238, 107])"
    using conjunct1 [OF conjunct2 [OF t3]] by (simp add: spec_prefix_def version_byte enc)
  from r1 e1 r2 e2 show ?thesis
    by blast
qed

section \<open>Scanning one index\<close>

lemma scanIndex_loop_fails:
  assumes "Some leaf \<in> set leaves" "readLeaf cr key leaf = Inl e"
  shows "\<exists>e'. scanIndex_loop cr key index change tree chain position leaves = Inl e'"
  using assms
proof (induction leaves arbitrary: position)
  case Nil
  then show ?case by simp
next
  case (Cons slot leaves)
  show ?case
  proof (cases slot)
    case None
    with Cons show ?thesis by simp
  next
    case (Some l)
    show ?thesis
    proof (cases "readLeaf cr key l")
      case (Inl e0)
      with Some show ?thesis by simp
    next
      case (Inr nt)
      with Some Cons.prems have "Some leaf \<in> set leaves" by auto
      from Cons.IH [OF this Cons.prems(2)] obtain e' where
        "scanIndex_loop cr key index change tree chain (Suc position) leaves = Inl e'"
        by blast
      with Some Inr show ?thesis by simp
    qed
  qed
qed

lemma scanIndex_loop_first_failure:
  assumes "i < length leaves" "leaves ! i = Some leaf" "readLeaf cr key leaf = Inl e"
    and "\<And>j l. j < i \<Longrightarrow> leaves ! j = Some l \<Longrightarrow> \<exists>note. readLeaf cr key l = Inr note"
  shows "scanIndex_loop cr key index change tree chain position leaves = Inl e"
  using assms
proof (induction leaves arbitrary: position i)
  case Nil
  then show ?case by simp
next
  case (Cons slot leaves)
  show ?case
  proof (cases i)
    case 0
    with Cons.prems show ?thesis by simp
  next
    case (Suc i')
    have rest:
      "scanIndex_loop cr key index change tree chain (Suc position) leaves = Inl e"
    proof (rule Cons.IH [of i'])
      show "i' < length leaves" "leaves ! i' = Some leaf"
        using Cons.prems Suc by simp_all
      show "readLeaf cr key leaf = Inl e"
        by fact
      show "\<exists>nt. readLeaf cr key l = Inr nt" if "j < i'" "leaves ! j = Some l" for j l
        using Cons.prems(4) [of "Suc j" l] that Suc by simp
    qed
    show ?thesis
    proof (cases slot)
      case None
      with rest show ?thesis by simp
    next
      case (Some l)
      from Cons.prems(4) [of 0 l] Some Suc obtain nt where "readLeaf cr key l = Inr nt"
        by auto
      with Some rest show ?thesis by simp
    qed
  qed
qed

text \<open>What a batch holds at a key, when every leaf can be read.\<close>

lemma scanIndex_loop_reads:
  assumes "\<And>leaf. Some leaf \<in> set leaves \<Longrightarrow> \<exists>note. readLeaf cr key leaf = Inr note"
  shows "\<exists>writeBatch.
     scanIndex_loop cr key index change tree chain position leaves = Inr writeBatch
     \<and> (\<forall>k. map_of writeBatch k =
          (case k of (c, t, p) \<Rightarrow>
             if c = chain \<and> t = tree \<and> position \<le> p \<and> p < position + length leaves
             then (case leaves ! (p - position) of
                     None \<Rightarrow> None
                   | Some leaf \<Rightarrow>
                      (case readLeaf cr key leaf of
                         Inl e \<Rightarrow> None
                       | Inr note \<Rightarrow>
                           if note_pubkey note = kp_pubkey key
                           then Some (snd (txoPut cr key index change tree chain p leaf note))
                           else None))
             else None))"
  using assms
proof (induction leaves arbitrary: position)
  case Nil
  then show ?case by (auto split: prod.splits)
next
  case (Cons slot leaves)
  from Cons.prems have "\<And>leaf. Some leaf \<in> set leaves \<Longrightarrow> \<exists>note. readLeaf cr key leaf = Inr note"
    by auto
  from Cons.IH [OF this, of "Suc position"] obtain rest where
    rest: "scanIndex_loop cr key index change tree chain (Suc position) leaves = Inr rest"
    and content: "\<And>k. map_of rest k =
          (case k of (c, t, p) \<Rightarrow>
             if c = chain \<and> t = tree \<and> Suc position \<le> p \<and> p < Suc position + length leaves
             then (case leaves ! (p - Suc position) of
                     None \<Rightarrow> None
                   | Some leaf \<Rightarrow>
                      (case readLeaf cr key leaf of
                         Inl e \<Rightarrow> None
                       | Inr note \<Rightarrow>
                           if note_pubkey note = kp_pubkey key
                           then Some (snd (txoPut cr key index change tree chain p leaf note))
                           else None))
             else None)"
    by blast
  show ?case
  proof (cases slot)
    case None
    with rest content show ?thesis
      by (auto simp: nth_Cons' split: prod.splits)
  next
    case (Some l)
    with Cons.prems obtain nt where nt: "readLeaf cr key l = Inr nt"
      by auto
    show ?thesis
    proof (cases "note_pubkey nt = kp_pubkey key")
      case True
      with Some nt rest content show ?thesis
        by (auto simp: nth_Cons' txoPut_def split: prod.splits)
    next
      case False
      with Some nt rest content show ?thesis
        by (auto simp: nth_Cons' split: prod.splits)
    qed
  qed
qed


lemma scanIndex_loop_keys:
  "scanIndex_loop cr key index change tree chain position leaves = Inr writeBatch
   \<Longrightarrow> distinct (map fst writeBatch)
       \<and> (\<forall>k \<in> fst ` set writeBatch. position \<le> snd (snd k))"
proof (induction leaves arbitrary: position writeBatch)
  case Nil
  then show ?case by simp
next
  case (Cons slot leaves)
  show ?case
  proof (cases slot)
    case None
    with Cons.prems have
      "scanIndex_loop cr key index change tree chain (Suc position) leaves = Inr writeBatch"
      by simp
    from Cons.IH [OF this] show ?thesis by fastforce
  next
    case (Some l)
    with Cons.prems obtain nt rest where
      nt: "readLeaf cr key l = Inr nt"
      and rest: "scanIndex_loop cr key index change tree chain (Suc position) leaves = Inr rest"
      and batch: "writeBatch =
        (if note_pubkey nt = kp_pubkey key
         then txoPut cr key index change tree chain position l nt # rest else rest)"
      by (auto split: sum.splits if_splits)
    from Cons.IH [OF rest] have d: "distinct (map fst rest)"
      and ge: "\<forall>k \<in> fst ` set rest. Suc position \<le> snd (snd k)"
      by blast+
    from ge have "(chain, tree, position) \<notin> fst ` set rest"
      by fastforce
    show ?thesis
    proof (cases "note_pubkey nt = kp_pubkey key")
      case True
      with batch have "writeBatch = ((chain, tree, position),
          snd (txoPut cr key index change tree chain position l nt)) # rest"
        by (simp add: txoPut_def)
      with d ge \<open>(chain, tree, position) \<notin> fst ` set rest\<close> show ?thesis
        by auto
    next
      case False
      with batch have "writeBatch = rest" by simp
      with d ge show ?thesis by auto
    qed
  qed
qed

lemma map_of_db_put: "map_of (db_put db k v) = (map_of db)(k \<mapsto> v)"
  by (induction db) auto

lemma map_of_db_batch:
  "distinct (map fst puts) \<Longrightarrow>
   map_of (db_batch db puts) k =
     (case map_of puts k of Some v \<Rightarrow> Some v | None \<Rightarrow> map_of db k)"
  unfolding db_batch_def
proof (induction puts arbitrary: db)
  case Nil
  then show ?case by simp
next
  case (Cons p puts)
  obtain k0 v0 where p: "p = (k0, v0)" by (cases p)
  from Cons.prems p have fresh: "map_of puts k0 = None" and d: "distinct (map fst puts)"
    by (auto simp: map_of_eq_None_iff)
  from Cons.IH [OF d, of "db_put db k0 v0"] fresh p show ?case
    by (auto simp: map_of_db_put split: option.splits)
qed

lemma scanIndex_reads:
  assumes "\<And>leaf. Some leaf \<in> set leaves \<Longrightarrow>
             \<exists>nt. readLeaf cr (derive_key w change index) leaf = Inr nt"
  shows "\<exists>st' found.
     scanIndex cr w index change leaves tree chain st = (st', Inr found)
     \<and> (\<forall>c t p. map_of (db_txos st') (c, t, p) =
          (if c = chain \<and> t = tree
              \<and> recordedAt cr (derive_key w change index) index change tree chain leaves p
                  \<noteq> None
           then recordedAt cr (derive_key w change index) index change tree chain leaves p
           else map_of (db_txos st) (c, t, p)))
     \<and> (found \<longleftrightarrow>
          (\<exists>p. recordedAt cr (derive_key w change index) index change tree chain leaves p
                 \<noteq> None))"
proof -
  let ?key = "derive_key w change index"
  from scanIndex_loop_reads [of leaves cr ?key index change tree chain 0, OF assms]
  obtain writeBatch where
    loop: "scanIndex_loop cr ?key index change tree chain 0 leaves = Inr writeBatch"
    and content: "\<And>c t p. map_of writeBatch (c, t, p) =
       (if c = chain \<and> t = tree then recordedAt cr ?key index change tree chain leaves p
        else None)"
    by (fastforce simp: recordedAt_def)
  from scanIndex_loop_keys [OF loop] have d: "distinct (map fst writeBatch)"
    by blast
  have found: "writeBatch \<noteq> [] \<longleftrightarrow>
      (\<exists>p. recordedAt cr ?key index change tree chain leaves p \<noteq> None)"
  proof
    assume "writeBatch \<noteq> []"
    then obtain c t p v rest where "writeBatch = ((c, t, p), v) # rest"
      by (cases writeBatch) auto
    then have "map_of writeBatch (c, t, p) = Some v" by simp
    then have "(if c = chain \<and> t = tree
                then recordedAt cr ?key index change tree chain leaves p else None) = Some v"
      by (simp only: content)
    then have "recordedAt cr ?key index change tree chain leaves p = Some v"
      by (simp split: if_splits)
    then have "recordedAt cr ?key index change tree chain leaves p \<noteq> None"
      by simp
    then show "\<exists>p. recordedAt cr ?key index change tree chain leaves p \<noteq> None"
      by blast
  next
    assume "\<exists>p. recordedAt cr ?key index change tree chain leaves p \<noteq> None"
    then obtain p where "map_of writeBatch (chain, tree, p) \<noteq> None"
      using content by auto
    then show "writeBatch \<noteq> []" by auto
  qed
  have key: "(if change then derive_key w True index else derive_key w False index) = ?key"
    by simp
  show ?thesis
    unfolding scanIndex_def Let_def key loop
    using found content
    by (auto simp: map_of_db_batch [OF d] split: option.splits)
qed

lemma scanIndex_fails:
  assumes "Some leaf \<in> set leaves" "readLeaf cr (derive_key w change index) leaf = Inl e"
  shows "\<exists>e'. scanIndex cr w index change leaves tree chain st = (st, Inl e')"
proof -
  have key: "(if change then derive_key w True index else derive_key w False index)
      = derive_key w change index"
    by simp
  from scanIndex_loop_fails [OF assms, of index change tree chain 0] obtain e' where
    "scanIndex_loop cr (derive_key w change index) index change tree chain 0 leaves = Inl e'"
    by blast
  then show ?thesis
    unfolding scanIndex_def Let_def key by simp
qed

lemma awaitAll_rejected: "awaitAll (Inl e # promises @ others) = Inl e"
  by simp

lemma scanPass_first:
  "scanf i st = (st1, r) \<Longrightarrow>
   \<exists>st2 promises. scanPass scanf (i # indexes) [] st = (st2, r # promises)"
  by (auto split: prod.splits)

lemma scanLeaves_aborts:
  assumes "0 < initialHeight + gapLimit w"
    and "Some leaf \<in> set leaves" "readLeaf cr (derive_key w change 0) leaf = Inl e"
  shows "\<exists>st' e'. scanLeaves (Suc fuel) cr w leaves change initialHeight tree chain st =
           Some (st', Inl e')"
proof -
  let ?scanf = "\<lambda>index. scanIndex cr w index change leaves tree chain"
  from scanIndex_fails [OF assms(2,3)] obtain e' where "?scanf 0 st = (st, Inl e')"
    by blast
  from scanPass_first [of ?scanf, OF this] obtain st2 promises where
    "scanPass ?scanf (0 # [1..<initialHeight + gapLimit w + 1]) [] st = (st2, Inl e' # promises)"
    by blast
  moreover have "[0..<initialHeight + gapLimit w + 1] = 0 # [1..<initialHeight + gapLimit w + 1]"
    by (simp add: upt_rec)
  ultimately show ?thesis
    using assms(1) by (simp add: scanLeaves_def scanLeaves_pass_def)
qed


text \<open>
  C9 (as amended). A failure while decrypting or deserializing a commitment is not
  local. When a leaf of the batch cannot be read with the key of an index, \<open>scanIndex\<close>
  raises for that index and writes nothing, whatever other leaves are addressed to
  the key; a sweep whose first index meets such a leaf ends with the exception. Only
  when every leaf can be read does \<open>scanIndex\<close> return, and then the database holds
  the record of every leaf addressed to the key, the rest of it as before.
\<close>

theorem scan_failure_not_local:
  "(Some leaf \<in> set leaves \<and> readLeaf cr (derive_key w change index) leaf = Inl e \<longrightarrow>
      (\<exists>e'. scanIndex cr w index change leaves tree chain st = (st, Inl e')))
   \<and> (0 < initialHeight + gapLimit w \<and> Some leaf \<in> set leaves
        \<and> readLeaf cr (derive_key w change 0) leaf = Inl e \<longrightarrow>
      (\<exists>st' e'. scanLeaves (Suc fuel) cr w leaves change initialHeight tree chain st =
                  Some (st', Inl e')))
   \<and> ((\<forall>l. Some l \<in> set leaves \<longrightarrow>
           (\<exists>nt. readLeaf cr (derive_key w change index) l = Inr nt)) \<longrightarrow>
      (\<exists>st' found.
         scanIndex cr w index change leaves tree chain st = (st', Inr found)
         \<and> (\<forall>c t p. map_of (db_txos st') (c, t, p) =
              (if c = chain \<and> t = tree
                  \<and> recordedAt cr (derive_key w change index) index change tree chain leaves p
                      \<noteq> None
               then recordedAt cr (derive_key w change index) index change tree chain leaves p
               else map_of (db_txos st) (c, t, p)))
         \<and> (found \<longleftrightarrow>
              (\<exists>p. recordedAt cr (derive_key w change index) index change tree chain leaves p
                     \<noteq> None))))"
proof (intro conjI impI)
  assume "Some leaf \<in> set leaves \<and> readLeaf cr (derive_key w change index) leaf = Inl e"
  then show "\<exists>e'. scanIndex cr w index change leaves tree chain st = (st, Inl e')"
    using scanIndex_fails by blast
next
  assume "0 < initialHeight + gapLimit w \<and> Some leaf \<in> set leaves
        \<and> readLeaf cr (derive_key w change 0) leaf = Inl e"
  then show "\<exists>st' e'. scanLeaves (Suc fuel) cr w leaves change initialHeight tree chain st =
                  Some (st', Inl e')"
    by (elim conjE) (rule scanLeaves_aborts)
next
  assume "\<forall>l. Some l \<in> set leaves \<longrightarrow>
           (\<exists>nt. readLeaf cr (derive_key w change index) l = Inr nt)"
  then have "\<And>l. Some l \<in> set leaves \<Longrightarrow>
           \<exists>nt. readLeaf cr (derive_key w change index) l = Inr nt"
    by blast
  from scanIndex_reads [OF this]
  show "\<exists>st' found.
         scanIndex cr w index change leaves tree chain st = (st', Inr found)
         \<and> (\<forall>c t p. map_of (db_txos st') (c, t, p) =
              (if c = chain \<and> t = tree
                  \<and> recordedAt cr (derive_key w change index) index change tree chain leaves p
                      \<noteq> None
               then recordedAt cr (derive_key w change index) index change tree chain leaves p
               else map_of (db_txos st) (c, t, p)))
         \<and> (found \<longleftrightarrow>
              (\<exists>p. recordedAt cr (derive_key w change index) index change tree chain leaves p
                     \<noteq> None))"
    by blast
qed

lemma demo_malformed:
  "readLeaf demo_crypto (derive_key (demo_wallet []) False k) (GeneratedCommitment [0] [1, 2])
     = Inl MalformedNote"
  by (simp add: readLeaf_def demo_crypto_def demo_deserialize_def)

lemma demo_readable:
  "readLeaf demo_crypto key (note_to i v) =
     Inr \<lparr> note_pubkey = [0, of_nat i], note_random = [], note_amount = Hex [of_nat v],
           note_token = [1] \<rparr>"
  by (simp add: readLeaf_def demo_crypto_def demo_deserialize_def note_to_def)

theorem scan_failure_not_local_witness:
  "(\<exists>e'. scanIndex demo_crypto (demo_wallet []) 3 False
            [Some (GeneratedCommitment [0] [1, 2]), Some (note_to 3 7)] 0 1 empty_state
          = (empty_state, Inl e'))
   \<and> (\<exists>st' e'. scanLeaves (Suc 0) demo_crypto (demo_wallet [])
            [Some (GeneratedCommitment [0] [1, 2]), Some (note_to 3 7)] False 0 0 1 empty_state
          = Some (st', Inl e'))
   \<and> (\<exists>st'. scanIndex demo_crypto (demo_wallet []) 3 False [Some (note_to 3 7)] 0 1
            empty_state = (st', Inr True))"
proof -
  let ?bad = "GeneratedCommitment [0] [1, 2]"
  let ?leaves = "[Some ?bad, Some (note_to 3 7)]"
  have m: "Some ?bad \<in> set ?leaves" by simp
  have g: "0 < 0 + gapLimit (demo_wallet [])"
    by (simp add: demo_wallet_def)
  note t1 = scan_failure_not_local [of ?bad ?leaves demo_crypto "demo_wallet []" False 3
      MalformedNote 0 1 empty_state 0 0]
  have c1: "\<exists>e'. scanIndex demo_crypto (demo_wallet []) 3 False ?leaves 0 1 empty_state
          = (empty_state, Inl e')"
    using conjunct1 [OF t1] m demo_malformed [of 3] by blast
  have c2: "\<exists>st' e'. scanLeaves (Suc 0) demo_crypto (demo_wallet []) ?leaves False 0 0 1
          empty_state = Some (st', Inl e')"
    using conjunct1 [OF conjunct2 [OF t1]] m g demo_malformed [of 0] by blast
  note t2 = scan_failure_not_local [of _ "[Some (note_to 3 7)]" demo_crypto "demo_wallet []"
      False 3 _ 0 1 empty_state 0 0]
  have r: "\<forall>l. Some l \<in> set [Some (note_to 3 7)] \<longrightarrow>
      (\<exists>nt. readLeaf demo_crypto (derive_key (demo_wallet []) False 3) l = Inr nt)"
    by (simp add: demo_readable)
  have rec: "recordedAt demo_crypto (derive_key (demo_wallet []) False 3) 3 False 0 1
      [Some (note_to 3 7)] 0 \<noteq> None"
    by (simp add: recordedAt_def demo_readable demo_wallet_def demo_keypair_def)
  from conjunct2 [OF conjunct2 [OF t2]] r obtain st' found where
    ret: "scanIndex demo_crypto (demo_wallet []) 3 False [Some (note_to 3 7)] 0 1 empty_state
       = (st', Inr found)"
    and f: "found \<longleftrightarrow> (\<exists>p. recordedAt demo_crypto (derive_key (demo_wallet []) False 3) 3
        False 0 1 [Some (note_to 3 7)] p \<noteq> None)"
    by blast
  from f rec have found
    by (auto intro: exI [of _ 0])
  with ret have c3: "\<exists>st'. scanIndex demo_crypto (demo_wallet []) 3 False
      [Some (note_to 3 7)] 0 1 empty_state = (st', Inr True)"
    by auto
  from c1 c2 c3 show ?thesis by blast
qed

text \<open>
  The claim as stated fails: with a malformed leaf before a leaf addressed to index 3,
  \<open>scanIndex\<close> raises and records nothing, where the second leaf alone is recorded;
  and the whole scan of such a tree ends with the exception, its lock still set.
\<close>

theorem scan_failure_local_counterexample:
  "scanIndex demo_crypto (demo_wallet []) 3 False
      [Some (GeneratedCommitment [0] [1, 2]), Some (note_to 3 7)] 0 1 empty_state
     = (empty_state, Inl MalformedNote)
   \<and> scanIndex demo_crypto (demo_wallet []) 3 False [None, Some (note_to 3 7)] 0 1
       empty_state
     = (\<lparr> db_txos =
            [((1, 0, 1),
              \<lparr> st_index = 3, st_change = False, st_spendtxid = None, st_txid = [0],
                st_nullifier = [0, 3, 0, 1], st_decrypted = [0, 3, 7] \<rparr>)],
          db_details = None, scanLockPerChain = [] \<rparr>,
        Inr True)
   \<and> scan 5 demo_crypto (demo_wallet [GeneratedCommitment [0] [1, 2], note_to 3 7]) 1
       empty_state
     = Some (\<lparr> db_txos = [], db_details = None, scanLockPerChain = [None, Some True] \<rparr>,
             Inl MalformedNote)"
  by code_simp

section \<open>The sweep over the derivation indexes\<close>

lemma awaitAll_resolved:
  "awaitAll (map (\<lambda>k. Inr (f k)) xs @ map Inr ys) = Inr (map f xs @ ys)"
  by (induction xs) (simp_all, induction ys, simp_all)

lemma lastIndexOf_from_append:
  "lastIndexOf_from k (xs @ ys) found =
     lastIndexOf_from (k + length xs) ys (lastIndexOf_from k xs found)"
  by (induction xs arbitrary: k found) simp_all

lemma scanLeaves_loop_done:
  "\<not> length usedIndexes < height + gap \<Longrightarrow>
   scanLeaves_loop fuel scanf gap height usedIndexes st = Some (st, Inr height)"
  by (cases fuel) simp_all

lemma readable_reads:
  "readable cr w change leaves k \<Longrightarrow> Some leaf \<in> set leaves \<Longrightarrow>
   \<exists>nt. readLeaf cr (derive_key w change k) leaf = Inr nt"
  by (cases "readLeaf cr (derive_key w change k) leaf")
     (auto simp: readable_def list_all_iff)

lemma inUse_iff:
  "inUse cr w change tree chain leaves k \<longleftrightarrow>
     (\<exists>p. recordedAt cr (derive_key w change k) k change tree chain leaves p \<noteq> None)"
proof -
  have "recordedAt cr (derive_key w change k) k change tree chain leaves p \<noteq> None
        \<Longrightarrow> p < length leaves" for p
    by (simp add: recordedAt_def split: if_splits)
  then show ?thesis
    by (auto simp: inUse_def list_ex_iff)
qed

lemma scanIndex_idle:
  assumes "readable cr w change leaves k" "\<not> inUse cr w change tree chain leaves k"
  shows "scanIndex cr w k change leaves tree chain st = (st, Inr False)"
proof -
  from scanIndex_reads [of leaves cr w change k tree chain st] readable_reads [OF assms(1)]
  obtain st' found where
    ret: "scanIndex cr w k change leaves tree chain st = (st', Inr found)"
    and f: "found \<longleftrightarrow>
      (\<exists>p. recordedAt cr (derive_key w change k) k change tree chain leaves p \<noteq> None)"
    by blast
  from f assms(2) have nf: "\<not> found" by (simp add: inUse_iff)
  from ret nf have "st' = st"
    by (auto simp: scanIndex_def Let_def db_batch_def split: sum.splits if_splits)
  with ret nf show ?thesis by simp
qed

lemma scanIndex_hit:
  assumes "readable cr w change leaves k" "inUse cr w change tree chain leaves k"
  shows "scanIndex cr w k change leaves tree chain st =
           (fst (scanIndex cr w k change leaves tree chain st), Inr True)"
proof -
  from scanIndex_reads [of leaves cr w change k tree chain st] readable_reads [OF assms(1)]
  obtain st' found where
    ret: "scanIndex cr w k change leaves tree chain st = (st', Inr found)"
    and f: "found \<longleftrightarrow>
      (\<exists>p. recordedAt cr (derive_key w change k) k change tree chain leaves p \<noteq> None)"
    by blast
  from f assms(2) have found by (simp add: inUse_iff)
  with ret show ?thesis by simp
qed

lemma scanIndex_records:
  assumes "readable cr w change leaves k"
    and "recordedAt cr (derive_key w change k) k change tree chain leaves p \<noteq> None"
  shows "map_of (db_txos (fst (scanIndex cr w k change leaves tree chain st))) (chain, tree, p)
         = recordedAt cr (derive_key w change k) k change tree chain leaves p"
proof -
  from scanIndex_reads [of leaves cr w change k tree chain st] readable_reads [OF assms(1)]
  obtain st' found where
    ret: "scanIndex cr w k change leaves tree chain st = (st', Inr found)"
    and content: "\<forall>c t p. map_of (db_txos st') (c, t, p) =
          (if c = chain \<and> t = tree
              \<and> recordedAt cr (derive_key w change k) k change tree chain leaves p \<noteq> None
           then recordedAt cr (derive_key w change k) k change tree chain leaves p
           else map_of (db_txos st) (c, t, p))"
    by blast
  from content assms(2) ret show ?thesis by simp
qed

lemma lastUsed_none: "(\<And>k. k < n \<Longrightarrow> \<not> used k) \<Longrightarrow> lastUsed used n = 0"
  by (induction n) auto

lemma lastUsed_bound: "(\<And>k. k < n \<Longrightarrow> used k \<Longrightarrow> k \<le> m) \<Longrightarrow> lastUsed used n \<le> m"
  by (induction n) auto

lemma lastIndexOf_true_map:
  "lastIndexOf_true (map used [0..<n]) =
     (if \<exists>k < n. used k then int (lastUsed used n) else - 1)"
proof (induction n)
  case 0
  then show ?case by (simp add: lastIndexOf_true_def)
next
  case (Suc n)
  have "lastIndexOf_true (map used [0..<Suc n]) =
      (if used n then int n else lastIndexOf_true (map used [0..<n]))"
    by (simp add: lastIndexOf_true_def lastIndexOf_from_append)
  with Suc show ?case
    by (auto simp: less_Suc_eq)
qed

lemma height_of_lastIndexOf:
  "(if lastIndexOf_true (map used [0..<n]) = - 1 then 0
    else nat (lastIndexOf_true (map used [0..<n]))) = lastUsed used n"
  by (auto simp: lastIndexOf_true_map lastUsed_none)

text \<open>
  A pass over indexes whose scans do not raise: \<open>used k\<close> says whether index \<open>k\<close> is in
  use, and \<open>effect k\<close> is what its scan does to the database then.
\<close>

lemma scanPass_general:
  assumes "\<And>k s. k \<in> set indexes \<Longrightarrow>
             scanf k s = (if used k then effect k s else s, Inr (used k))"
    and "\<And>k. k < length usedIndexes \<Longrightarrow> usedIndexes ! k \<Longrightarrow> used k"
  shows "scanPass scanf indexes usedIndexes st =
     (fold (\<lambda>k s. if used k \<and> \<not> (k < length usedIndexes \<and> usedIndexes ! k)
                   then effect k s else s) indexes st,
      map (\<lambda>k. Inr (used k)) indexes)"
  using assms(1)
proof (induction indexes arbitrary: st)
  case Nil
  then show ?case by simp
next
  case (Cons k indexes)
  have rest: "scanPass scanf indexes usedIndexes s =
     (fold (\<lambda>k s. if used k \<and> \<not> (k < length usedIndexes \<and> usedIndexes ! k)
                   then effect k s else s) indexes s,
      map (\<lambda>k. Inr (used k)) indexes)" for s
    using Cons.prems by (intro Cons.IH) auto
  have here: "scanf k s = (if used k then effect k s else s, Inr (used k))" for s
    using Cons.prems by simp
  show ?case
  proof (cases "k < length usedIndexes \<and> usedIndexes ! k")
    case True
    with assms(2) [of k] have "used k" by simp
    with True show ?thesis
      by (simp add: rest)
  next
    case False
    then show ?thesis
      by (auto simp: rest here)
  qed
qed

lemma fold_keeps:
  assumes "\<And>k s. k \<in> set indexes \<Longrightarrow> cond k \<Longrightarrow> Q s \<Longrightarrow> Q (effect k s)"
    and "Q st"
  shows "Q (fold (\<lambda>k s. if cond k then effect k s else s) indexes st)"
  using assms
proof (induction indexes arbitrary: st)
  case Nil
  then show ?case by simp
next
  case (Cons k indexes)
  have "Q (if cond k then effect k st else st)"
    using Cons.prems by simp
  moreover have "\<And>j s. j \<in> set indexes \<Longrightarrow> cond j \<Longrightarrow> Q s \<Longrightarrow> Q (effect j s)"
    using Cons.prems by simp
  ultimately have "Q (fold (\<lambda>k s. if cond k then effect k s else s) indexes
      (if cond k then effect k st else st))"
    by (rule Cons.IH [rotated])
  then show ?case by simp
qed

lemma fold_reaches:
  assumes "\<And>k s. k \<in> set indexes \<Longrightarrow> cond k \<Longrightarrow> Q s \<Longrightarrow> Q (effect k s)"
    and "i \<in> set indexes" "cond i" "\<And>s. Q (effect i s)"
  shows "Q (fold (\<lambda>k s. if cond k then effect k s else s) indexes st)"
  using assms(1,2)
proof (induction indexes arbitrary: st)
  case Nil
  then show ?case by simp
next
  case (Cons k indexes)
  have keeps: "\<And>j s. j \<in> set indexes \<Longrightarrow> cond j \<Longrightarrow> Q s \<Longrightarrow> Q (effect j s)"
    using Cons.prems by simp
  show ?case
  proof (cases "i \<in> set indexes")
    case True
    from Cons.IH [OF keeps True] show ?thesis by simp
  next
    case False
    with Cons.prems have "k = i" by simp
    with assms(3,4) have start: "Q (if cond k then effect k st else st)" by simp
    have "Q (fold (\<lambda>k s. if cond k then effect k s else s) indexes
      (if cond k then effect k st else st))"
      using keeps start by (rule fold_keeps [where Q = Q and cond = cond])
    then show ?thesis by simp
  qed
qed


lemma scanLeaves_pass_general:
  assumes scans: "\<And>k s. k \<le> height + gap \<Longrightarrow>
             scanf k s = (if used k then effect k s else s, Inr (used k))"
    and keeps: "\<And>k s. k \<le> height + gap \<Longrightarrow> used k \<Longrightarrow> Q s \<Longrightarrow> Q (effect k s)"
    and n: "n \<le> height + gap + 1"
  shows "\<exists>st'. scanLeaves_pass scanf gap height (map used [0..<n]) st =
            (st', Inr (lastUsed used (height + gap + 1), map used [0..<height + gap + 1]))
          \<and> (Q st \<longrightarrow> Q st')
          \<and> (n \<le> i \<and> i \<le> height + gap \<and> used i \<and> (\<forall>s. Q (effect i s)) \<longrightarrow> Q st')"
proof -
  define top where "top = height + gap + 1"
  let ?cond = "\<lambda>k. used k \<and> \<not> (k < length (map used [0..<n]) \<and> map used [0..<n] ! k)"
  let ?st' = "fold (\<lambda>k s. if ?cond k then effect k s else s) [0..<top] st"
  have inside: "k \<le> height + gap" if "k \<in> set [0..<top]" for k
    using that by (auto simp: top_def)
  have pass: "scanPass scanf [0..<top] (map used [0..<n]) st =
      (?st', map (\<lambda>k. Inr (used k)) [0..<top])"
    by (rule scanPass_general) (use scans inside in auto)
  have rest: "drop top (map used [0..<n]) = []"
    using n by (simp add: top_def)
  have "awaitAll (map (\<lambda>k. Inr (used k)) [0..<top] @ map Inr []) =
      Inr (map used [0..<top] @ [])"
    by (rule awaitAll_resolved)
  then have all: "awaitAll (map (\<lambda>k. Inr (used k)) [0..<top] @ map Inr []) =
      Inr (map used [0..<top])"
    by simp
  have result: "scanLeaves_pass scanf gap height (map used [0..<n]) st =
      (?st', Inr (lastUsed used top, map used [0..<top]))"
    unfolding scanLeaves_pass_def top_def [symmetric] pass rest
    by (simp only: all prod.case sum.case height_of_lastIndexOf)
  have k: "Q s \<Longrightarrow> Q (effect k s)" if "k \<in> set [0..<top]" "?cond k" for k s
    using that keeps [of k s] inside [of k] by blast
  have kept: "Q ?st'" if "Q st"
    using k that by (rule fold_keeps [where Q = Q and cond = ?cond])
  have reached: "Q ?st'" if "n \<le> i" "i \<le> height + gap" "used i" "\<And>s. Q (effect i s)"
  proof (rule fold_reaches [where Q = Q and cond = ?cond and i = i])
    show "Q s \<Longrightarrow> Q (effect k s)" if "k \<in> set [0..<top]" "?cond k" for k s
      using that k by blast
    show "i \<in> set [0..<top]"
      using that by (auto simp: top_def)
    show "?cond i"
      using that by simp
    show "Q (effect i s)" for s
      by (rule that)
  qed
  from result kept reached show ?thesis
    unfolding top_def by blast
qed

text \<open>
  The loop of the sweep when, up to a bound the sweep stays below, no scan raises and
  no index above \<open>m\<close> is in use: it ends within \<open>m + 1\<close> passes, at a height of at
  most \<open>m\<close> when it has made a pass.
\<close>

lemma scanLeaves_loop_general:
  assumes scans: "\<And>k s. k \<le> bound \<Longrightarrow>
             scanf k s = (if used k then effect k s else s, Inr (used k))"
    and keeps: "\<And>k s. k \<le> bound \<Longrightarrow> used k \<Longrightarrow> Q s \<Longrightarrow> Q (effect k s)"
    and limit: "\<And>k. k \<le> bound \<Longrightarrow> used k \<Longrightarrow> k \<le> m"
    and range: "max height m + gap \<le> bound"
    and fuel: "m < height + fuel" "n < height + gap \<Longrightarrow> 0 < fuel"
  shows "\<exists>st' height'.
      scanLeaves_loop fuel scanf gap height (map used [0..<n]) st = Some (st', Inr height')
    \<and> (height' \<le> m \<or> height' = height \<and> \<not> n < height + gap)
    \<and> (Q st \<longrightarrow> Q st')
    \<and> (n < height + gap \<and> n \<le> i \<and> i \<le> height + gap \<and> used i \<and> (\<forall>s. Q (effect i s))
         \<longrightarrow> Q st')"
  using range fuel
proof (induction fuel arbitrary: height n st)
  case 0
  then have "\<not> n < height + gap" by auto
  then show ?case by simp
next
  case (Suc fuel)
  show ?case
  proof (cases "n < height + gap")
    case False
    then show ?thesis by simp
  next
    case True
    let ?n1 = "height + gap + 1"
    let ?h1 = "lastUsed used ?n1"
    from Suc.prems(1) have below: "height + gap \<le> bound" by simp
    have "\<exists>st1. scanLeaves_pass scanf gap height (map used [0..<n]) st =
            (st1, Inr (?h1, map used [0..<?n1]))
          \<and> (Q st \<longrightarrow> Q st1)
          \<and> (n \<le> i \<and> i \<le> height + gap \<and> used i \<and> (\<forall>s. Q (effect i s)) \<longrightarrow> Q st1)"
    proof (rule scanLeaves_pass_general)
      show "scanf k s = (if used k then effect k s else s, Inr (used k))"
        if "k \<le> height + gap" for k s
        using that below by (intro scans) simp
      show "Q s \<Longrightarrow> Q (effect k s)" if "k \<le> height + gap" "used k" for k s
        using that below keeps [of k s] by simp
      show "n \<le> height + gap + 1"
        using True by simp
    qed
    then obtain st1 where
      pass: "scanLeaves_pass scanf gap height (map used [0..<n]) st =
            (st1, Inr (?h1, map used [0..<?n1]))"
      and kept1: "Q st \<longrightarrow> Q st1"
      and reached1: "n \<le> i \<and> i \<le> height + gap \<and> used i \<and> (\<forall>s. Q (effect i s)) \<longrightarrow> Q st1"
      by blast
    have h1: "?h1 \<le> m"
    proof (rule lastUsed_bound)
      show "k \<le> m" if "k < ?n1" "used k" for k
        using that below limit [of k] by simp
    qed
    have step: "scanLeaves_loop (Suc fuel) scanf gap height (map used [0..<n]) st =
        scanLeaves_loop fuel scanf gap ?h1 (map used [0..<?n1]) st1"
      using True by (simp add: pass del: upt_Suc)
    have "\<exists>st' height'.
        scanLeaves_loop fuel scanf gap ?h1 (map used [0..<?n1]) st1 = Some (st', Inr height')
      \<and> height' \<le> m \<and> (Q st1 \<longrightarrow> Q st')"
    proof (cases "?n1 < ?h1 + gap")
      case False
      then have "scanLeaves_loop fuel scanf gap ?h1 (map used [0..<?n1]) st1 =
          Some (st1, Inr ?h1)"
        by (intro scanLeaves_loop_done) simp
      with h1 show ?thesis by simp
    next
      case again: True
      have "\<exists>st' height'.
          scanLeaves_loop fuel scanf gap ?h1 (map used [0..<?n1]) st1 = Some (st', Inr height')
        \<and> (height' \<le> m \<or> height' = ?h1 \<and> \<not> ?n1 < ?h1 + gap)
        \<and> (Q st1 \<longrightarrow> Q st')
        \<and> (?n1 < ?h1 + gap \<and> ?n1 \<le> i \<and> i \<le> ?h1 + gap \<and> used i \<and> (\<forall>s. Q (effect i s))
             \<longrightarrow> Q st')"
      proof (rule Suc.IH)
        show "max ?h1 m + gap \<le> bound"
          using h1 Suc.prems(1) by (simp add: max_def split: if_splits)
        show "m < ?h1 + fuel"
          using again Suc.prems(2) by simp
        show "0 < fuel"
          using again h1 Suc.prems(2) by simp
      qed
      with h1 show ?thesis by blast
    qed
    then obtain st' height' where
      "scanLeaves_loop fuel scanf gap ?h1 (map used [0..<?n1]) st1 = Some (st', Inr height')"
      "height' \<le> m" "Q st1 \<longrightarrow> Q st'"
      by blast
    with step kept1 reached1 show ?thesis
      by auto
  qed
qed

text \<open>
  One sweep over leaves every key up to the bound can read, with no index above \<open>m\<close>
  in use up to the bound: it ends, at a height of at most \<open>m\<close>; it keeps what the
  scans of the indexes in use keep, and its first pass reaches every index up to
  \<open>height + gapLimit\<close>.
\<close>

lemma scanLeaves_general:
  assumes read: "\<And>k. k \<le> bound \<Longrightarrow> readable cr w change leaves k"
    and limit: "\<And>k. k \<le> bound \<Longrightarrow> inUse cr w change tree chain leaves k \<Longrightarrow> k \<le> m"
    and keeps: "\<And>k s. k \<le> bound \<Longrightarrow> inUse cr w change tree chain leaves k \<Longrightarrow> Q s \<Longrightarrow>
                 Q (fst (scanIndex cr w k change leaves tree chain s))"
    and range: "max height m + gapLimit w \<le> bound"
    and fuel: "m < fuel"
  shows "\<exists>st' height'.
      scanLeaves fuel cr w leaves change height tree chain st = Some (st', Inr height')
    \<and> height' \<le> m
    \<and> (Q st \<longrightarrow> Q st')
    \<and> (0 < height + gapLimit w \<and> i \<le> height + gapLimit w
         \<and> inUse cr w change tree chain leaves i
         \<and> (\<forall>s. Q (fst (scanIndex cr w i change leaves tree chain s)))
        \<longrightarrow> Q st')"
proof -
  let ?scanf = "\<lambda>index. scanIndex cr w index change leaves tree chain"
  let ?used = "\<lambda>k. inUse cr w change tree chain leaves k"
  let ?effect = "\<lambda>k s. fst (scanIndex cr w k change leaves tree chain s)"
  have scans: "?scanf k s = (if ?used k then ?effect k s else s, Inr (?used k))"
    if "k \<le> bound" for k s
  proof (cases "?used k")
    case True
    from scanIndex_hit [OF read [OF that] True] True show ?thesis by simp
  next
    case False
    from scanIndex_idle [OF read [OF that] False] False show ?thesis by simp
  qed
  have "\<exists>st' height'.
      scanLeaves_loop fuel ?scanf (gapLimit w) height [] st
        = Some (st', Inr height')
    \<and> (height' \<le> m \<or> height' = height \<and> \<not> 0 < height + gapLimit w)
    \<and> (Q st \<longrightarrow> Q st')
    \<and> (0 < height + gapLimit w \<and> 0 \<le> i \<and> i \<le> height + gapLimit w \<and> ?used i
         \<and> (\<forall>s. Q (?effect i s))
         \<longrightarrow> Q st')"
  proof (rule scanLeaves_loop_general
      [where bound = bound and m = m and n = 0, unfolded upt_0 list.map(1)])
    show "?scanf k s = (if ?used k then ?effect k s else s, Inr (?used k))"
      if "k \<le> bound" for k s
      using that by (rule scans)
    show "Q s \<Longrightarrow> Q (?effect k s)" if "k \<le> bound" "?used k" for k s
      using that keeps [of k s] by simp
    show "k \<le> m" if "k \<le> bound" "?used k" for k
      using that by (rule limit)
    show "max height m + gapLimit w \<le> bound"
      by (rule range)
    show "m < height + fuel"
      using fuel by simp
    show "0 < fuel"
      using fuel by simp
  qed
  then obtain st' height' where
    loop: "scanLeaves_loop fuel ?scanf (gapLimit w) height [] st = Some (st', Inr height')"
    and h: "height' \<le> m \<or> height' = height \<and> \<not> 0 < height + gapLimit w"
    and kept: "Q st \<longrightarrow> Q st'"
    and reached: "0 < height + gapLimit w \<and> 0 \<le> i \<and> i \<le> height + gapLimit w \<and> ?used i
         \<and> (\<forall>s. Q (?effect i s)) \<longrightarrow> Q st'"
    by (elim exE conjE) (rule that)
  from h have below: "height' \<le> m" by auto
  from reached have reached': "0 < height + gapLimit w \<and> i \<le> height + gapLimit w \<and> ?used i
         \<and> (\<forall>s. Q (?effect i s)) \<longrightarrow> Q st'"
    by simp
  show ?thesis
    unfolding scanLeaves_def
    by (intro exI conjI) (rule loop, rule below, rule kept, rule reached')
qed

lemma scanTree_general:
  assumes leaves: "leaves = fetchLeaves mt tree (treeScannedHeights details ! tree)"
    and sound: "\<And>change k. k \<le> bound \<Longrightarrow>
        readable cr w change leaves k
        \<and> (inUse cr w change tree (mt_chainID mt) leaves k \<longrightarrow>
             k \<le> m
             \<and> (\<forall>s. Q s \<longrightarrow> Q (fst (scanIndex cr w k change leaves tree (mt_chainID mt) s))))"
    and range: "max (primaryHeight details) m + gapLimit w \<le> bound"
    and fuel: "m < fuel"
  shows "\<exists>st' details'.
      scanTree fuel cr w mt tree st details = Some (st', Inr details')
    \<and> primaryHeight details' \<le> m
    \<and> (\<exists>v. treeScannedHeights details' = (treeScannedHeights details)[tree := v])
    \<and> (Q st \<longrightarrow> Q st')
    \<and> (0 < primaryHeight details + gapLimit w \<and> i \<le> primaryHeight details + gapLimit w
         \<and> inUse cr w False tree (mt_chainID mt) leaves i
         \<and> (\<forall>s. Q (fst (scanIndex cr w i False leaves tree (mt_chainID mt) s)))
        \<longrightarrow> Q st')"
proof -
  let ?chain = "mt_chainID mt"
  let ?h = "primaryHeight details"
  have sweep: "\<exists>st' height'.
      scanLeaves fuel cr w leaves change ?h tree ?chain s = Some (st', Inr height')
    \<and> height' \<le> m
    \<and> (Q s \<longrightarrow> Q st')
    \<and> (0 < ?h + gapLimit w \<and> i \<le> ?h + gapLimit w
         \<and> inUse cr w change tree ?chain leaves i
         \<and> (\<forall>s. Q (fst (scanIndex cr w i change leaves tree ?chain s)))
        \<longrightarrow> Q st')" for change s
  proof (rule scanLeaves_general [where bound = bound and m = m])
    show "readable cr w change leaves k" if "k \<le> bound" for k
      using sound [OF that, of change] by blast
    show "k \<le> m" if "k \<le> bound" "inUse cr w change tree ?chain leaves k" for k
      using sound [OF that(1), of change] that(2) by blast
    show "Q s \<Longrightarrow> Q (fst (scanIndex cr w k change leaves tree ?chain s))"
      if "k \<le> bound" "inUse cr w change tree ?chain leaves k" for k s
      using sound [OF that(1), of change] that(2) by blast
    show "max ?h m + gapLimit w \<le> bound"
      by (rule range)
    show "m < fuel"
      by (rule fuel)
  qed
  from sweep [of False st] obtain st1 primary where
    p: "scanLeaves fuel cr w leaves False ?h tree ?chain st = Some (st1, Inr primary)"
    and ph: "primary \<le> m" and kept1: "Q st \<longrightarrow> Q st1"
    and reached1: "0 < ?h + gapLimit w \<and> i \<le> ?h + gapLimit w
         \<and> inUse cr w False tree ?chain leaves i
         \<and> (\<forall>s. Q (fst (scanIndex cr w i False leaves tree ?chain s)))
        \<longrightarrow> Q st1"
    by (elim exE conjE) (rule that)
  from sweep [of True st1] obtain st2 changed where
    c: "scanLeaves fuel cr w leaves True ?h tree ?chain st1 = Some (st2, Inr changed)"
    and kept2: "Q st1 \<longrightarrow> Q st2"
    by (elim exE conjE) (rule that)
  let ?details' = "\<lparr> treeScannedHeights = (treeScannedHeights details)
                          [tree := (if length leaves > 0 then length leaves - 1 else 0)],
                      primaryHeight = primary, changeHeight = changed \<rparr>"
  have ret: "scanTree fuel cr w mt tree st details = Some (st2, Inr ?details')"
    unfolding scanTree_def Let_def leaves [symmetric]
    by (simp add: p c)
  have ph': "primaryHeight ?details' \<le> m"
    using ph by simp
  have heights: "treeScannedHeights ?details' =
      (treeScannedHeights details)[tree := (if length leaves > 0 then length leaves - 1 else 0)]"
    by simp
  from kept1 kept2 have kept: "Q st \<longrightarrow> Q st2"
    by simp
  from reached1 kept2 have reached: "0 < ?h + gapLimit w \<and> i \<le> ?h + gapLimit w
         \<and> inUse cr w False tree ?chain leaves i
         \<and> (\<forall>s. Q (fst (scanIndex cr w i False leaves tree ?chain s)))
        \<longrightarrow> Q st2"
    by simp
  show ?thesis
    by (intro exI conjI) (rule ret, rule ph', rule heights, rule kept, rule reached)
qed

text \<open>
  The loop over the trees, each fetched from the height \<open>fetchedFrom\<close> gives it: it ends, and
  the height it leaves is at most \<open>m\<close> when it has scanned a tree.
\<close>

lemma scanTrees_general:
  assumes sound: "\<And>tree change k. tree \<in> set trees \<Longrightarrow> k \<le> bound \<Longrightarrow>
        readable cr w change (fetchLeaves mt tree (fetchedFrom tree)) k
        \<and> (inUse cr w change tree (mt_chainID mt) (fetchLeaves mt tree (fetchedFrom tree)) k \<longrightarrow>
             k \<le> m
             \<and> (\<forall>s. Q s \<longrightarrow>
                   Q (fst (scanIndex cr w k change (fetchLeaves mt tree (fetchedFrom tree)) tree
                             (mt_chainID mt) s))))"
    and heights: "\<And>tree. tree \<in> set trees \<Longrightarrow> treeScannedHeights details ! tree = fetchedFrom tree"
    and distinct: "distinct trees"
    and range: "max (primaryHeight details) m + gapLimit w \<le> bound"
    and fuel: "m < fuel"
  shows "\<exists>st' details'.
      scanTrees fuel cr w mt trees st details = Some (st', Inr details')
    \<and> (trees \<noteq> [] \<longrightarrow> primaryHeight details' \<le> m)
    \<and> (trees = [] \<longrightarrow> details' = details)
    \<and> (Q st \<longrightarrow> Q st')"
  using sound heights distinct range
proof (induction trees arbitrary: st details)
  case Nil
  then show ?case by simp
next
  case (Cons tree trees)
  let ?leaves = "fetchLeaves mt tree (treeScannedHeights details ! tree)"
  have here: "treeScannedHeights details ! tree = fetchedFrom tree"
    using Cons.prems(2) by simp
  have "\<exists>st1 details1.
      scanTree fuel cr w mt tree st details = Some (st1, Inr details1)
    \<and> primaryHeight details1 \<le> m
    \<and> (\<exists>v. treeScannedHeights details1 = (treeScannedHeights details)[tree := v])
    \<and> (Q st \<longrightarrow> Q st1)
    \<and> (0 < primaryHeight details + gapLimit w \<and> 0 \<le> primaryHeight details + gapLimit w
         \<and> inUse cr w False tree (mt_chainID mt) ?leaves 0
         \<and> (\<forall>s. Q (fst (scanIndex cr w 0 False ?leaves tree (mt_chainID mt) s)))
        \<longrightarrow> Q st1)"
  proof (rule scanTree_general [OF refl _ Cons.prems(4) fuel])
    show "readable cr w change ?leaves k
        \<and> (inUse cr w change tree (mt_chainID mt) ?leaves k \<longrightarrow>
             k \<le> m
             \<and> (\<forall>s. Q s \<longrightarrow> Q (fst (scanIndex cr w k change ?leaves tree (mt_chainID mt) s))))"
      if "k \<le> bound" for change k
      unfolding here using that by (intro Cons.prems(1)) simp_all
  qed
  then obtain st1 details1 v where
    first: "scanTree fuel cr w mt tree st details = Some (st1, Inr details1)"
    and h1: "primaryHeight details1 \<le> m"
    and hs1: "treeScannedHeights details1 = (treeScannedHeights details)[tree := v]"
    and kept1: "Q st \<longrightarrow> Q st1"
    by (elim exE conjE) (rule that)
  from h1 Cons.prems(4) have range1: "max (primaryHeight details1) m + gapLimit w \<le> bound"
    by (simp add: max_def split: if_splits)
  have "\<exists>st' details'.
      scanTrees fuel cr w mt trees st1 details1 = Some (st', Inr details')
    \<and> (trees \<noteq> [] \<longrightarrow> primaryHeight details' \<le> m)
    \<and> (trees = [] \<longrightarrow> details' = details1)
    \<and> (Q st1 \<longrightarrow> Q st')"
  proof (rule Cons.IH)
    show "readable cr w change (fetchLeaves mt t (fetchedFrom t)) k
        \<and> (inUse cr w change t (mt_chainID mt) (fetchLeaves mt t (fetchedFrom t)) k \<longrightarrow>
             k \<le> m
             \<and> (\<forall>s. Q s \<longrightarrow>
                   Q (fst (scanIndex cr w k change (fetchLeaves mt t (fetchedFrom t)) t
                             (mt_chainID mt) s))))"
      if "t \<in> set trees" "k \<le> bound" for t change k
      using that by (intro Cons.prems(1)) simp_all
    show "treeScannedHeights details1 ! t = fetchedFrom t" if "t \<in> set trees" for t
    proof -
      from that Cons.prems(3) have "t \<noteq> tree" by auto
      with Cons.prems(2) [of t] that show ?thesis
        by (simp add: hs1)
    qed
    show "distinct trees"
      using Cons.prems(3) by simp
    show "max (primaryHeight details1) m + gapLimit w \<le> bound"
      by (rule range1)
  qed
  then obtain st' details' where
    rest: "scanTrees fuel cr w mt trees st1 details1 = Some (st', Inr details')"
    and h': "trees \<noteq> [] \<longrightarrow> primaryHeight details' \<le> m"
    and same: "trees = [] \<longrightarrow> details' = details1"
    and kept': "Q st1 \<longrightarrow> Q st'"
    by (elim exE conjE) (rule that)
  from h1 h' same have below: "tree # trees \<noteq> [] \<longrightarrow> primaryHeight details' \<le> m"
    by (cases trees) auto
  have ret: "scanTrees fuel cr w mt (tree # trees) st details = Some (st', Inr details')"
    by (simp add: first rest)
  have never: "tree # trees = [] \<longrightarrow> details' = details"
    by simp
  from kept1 kept' have kept: "Q st \<longrightarrow> Q st'"
    by simp
  show ?case
    by (intro exI conjI) (rule ret, rule below, rule never, rule kept)
qed

lemma extended_heights:
  assumes "tree < length (heights @ replicate (latest + 1 - length heights) 0)"
  shows "(heights @ replicate (latest + 1 - length heights) 0) ! tree =
           (if tree < length heights then heights ! tree else 0)"
  using assms by (auto simp: nth_append)

text \<open>
  A scan of an unlocked chain whose leaves, as fetched, every key up to the bound can
  read, with no index above \<open>m\<close> in use up to the bound: it completes, and the first
  pass of the primary sweep of tree 0 reaches every index up to the stored primary
  height plus the gap limit.
\<close>

lemma scan_general:
  assumes unlocked: "array_get (scanLockPerChain st) (int chain) \<noteq> Some True"
    and mirror: "merkletree w chain = Some mt"
    and sound: "\<And>tree change k. k \<le> bound \<Longrightarrow>
        readable cr w change (fetchLeaves mt tree (scannedHeightOf st tree)) k
        \<and> (inUse cr w change tree (mt_chainID mt)
              (fetchLeaves mt tree (scannedHeightOf st tree)) k \<longrightarrow>
             k \<le> m
             \<and> (\<forall>s. Q s \<longrightarrow>
                   Q (fst (scanIndex cr w k change
                             (fetchLeaves mt tree (scannedHeightOf st tree)) tree
                             (mt_chainID mt) s))))"
    and range: "max (primaryHeight (getWalletDetails st)) m + gapLimit w \<le> bound"
    and fuel: "m < fuel"
    and db: "\<And>s s'. db_txos s = db_txos s' \<Longrightarrow> Q s = Q s'"
  shows "\<exists>st'. scan fuel cr w chain st = Some (st', Inr ())
    \<and> db_details st' \<noteq> None
    \<and> primaryHeight (getWalletDetails st') \<le> m
    \<and> (Q st \<longrightarrow> Q st')
    \<and> (0 < primaryHeight (getWalletDetails st) + gapLimit w
         \<and> i \<le> primaryHeight (getWalletDetails st) + gapLimit w
         \<and> inUse cr w False 0 (mt_chainID mt) (fetchLeaves mt 0 (scannedHeightOf st 0)) i
         \<and> (\<forall>s. Q (fst (scanIndex cr w i False (fetchLeaves mt 0 (scannedHeightOf st 0)) 0
                          (mt_chainID mt) s)))
        \<longrightarrow> Q st')"
proof -
  let ?st1 = "st\<lparr> scanLockPerChain := array_set (scanLockPerChain st) chain True \<rparr>"
  let ?wd = "getWalletDetails st"
  let ?hs = "treeScannedHeights ?wd"
  define hs1 where "hs1 = ?hs @ replicate (latestTree mt + 1 - length ?hs) 0"
  define trees where "trees = [1..<length hs1]"
  let ?wd1 = "?wd\<lparr> treeScannedHeights := hs1 \<rparr>"
  let ?leaves0 = "fetchLeaves mt 0 (scannedHeightOf st 0)"
  let ?chain = "mt_chainID mt"
  have wd1: "getWalletDetails ?st1 = ?wd"
    by (simp add: getWalletDetails_def)
  have from_height: "hs1 ! tree = scannedHeightOf st tree" if "tree < length hs1" for tree
    using extended_heights [OF that [unfolded hs1_def]]
    by (simp add: scannedHeightOf_def Let_def hs1_def)
  have some: "0 < length hs1"
    by (simp add: hs1_def)
  then have "[0..<length hs1] = 0 # [Suc 0..<length hs1]"
    by (rule upt_conv_Cons)
  then have all_trees: "[0..<length (treeScannedHeights ?wd1)] = 0 # trees"
    by (simp add: trees_def)
  have leaves0: "?leaves0 = fetchLeaves mt 0 (treeScannedHeights ?wd1 ! 0)"
    using from_height [OF some] by simp
  have range1: "max (primaryHeight ?wd1) m + gapLimit w \<le> bound"
    using range by simp
  have "\<exists>st2 details2.
      scanTree fuel cr w mt 0 ?st1 ?wd1 = Some (st2, Inr details2)
    \<and> primaryHeight details2 \<le> m
    \<and> (\<exists>v. treeScannedHeights details2 = (treeScannedHeights ?wd1)[0 := v])
    \<and> (Q ?st1 \<longrightarrow> Q st2)
    \<and> (0 < primaryHeight ?wd1 + gapLimit w \<and> i \<le> primaryHeight ?wd1 + gapLimit w
         \<and> inUse cr w False 0 ?chain ?leaves0 i
         \<and> (\<forall>s. Q (fst (scanIndex cr w i False ?leaves0 0 ?chain s)))
        \<longrightarrow> Q st2)"
    by (rule scanTree_general [OF leaves0 sound range1 fuel])
  then obtain st2 details2 v where
    first: "scanTree fuel cr w mt 0 ?st1 ?wd1 = Some (st2, Inr details2)"
    and h2: "primaryHeight details2 \<le> m"
    and hs2: "treeScannedHeights details2 = (treeScannedHeights ?wd1)[0 := v]"
    and kept2: "Q ?st1 \<longrightarrow> Q st2"
    and reached2: "0 < primaryHeight ?wd1 + gapLimit w \<and> i \<le> primaryHeight ?wd1 + gapLimit w
         \<and> inUse cr w False 0 ?chain ?leaves0 i
         \<and> (\<forall>s. Q (fst (scanIndex cr w i False ?leaves0 0 ?chain s)))
        \<longrightarrow> Q st2"
    by (elim exE conjE) (rule that)
  from h2 range have range2: "max (primaryHeight details2) m + gapLimit w \<le> bound"
    by (simp add: max_def split: if_splits)
  have "\<exists>st3 details3.
      scanTrees fuel cr w mt trees st2 details2 = Some (st3, Inr details3)
    \<and> (trees \<noteq> [] \<longrightarrow> primaryHeight details3 \<le> m)
    \<and> (trees = [] \<longrightarrow> details3 = details2)
    \<and> (Q st2 \<longrightarrow> Q st3)"
  proof (rule scanTrees_general [where bound = bound and m = m
        and fetchedFrom = "scannedHeightOf st"])
    show "readable cr w change (fetchLeaves mt tree (scannedHeightOf st tree)) k
        \<and> (inUse cr w change tree ?chain (fetchLeaves mt tree (scannedHeightOf st tree)) k \<longrightarrow>
             k \<le> m
             \<and> (\<forall>s. Q s \<longrightarrow>
                   Q (fst (scanIndex cr w k change
                             (fetchLeaves mt tree (scannedHeightOf st tree)) tree ?chain s))))"
      if "k \<le> bound" for tree change k
      using that by (rule sound)
    show "treeScannedHeights details2 ! tree = scannedHeightOf st tree"
      if "tree \<in> set trees" for tree
    proof -
      from that have "tree \<noteq> 0" "tree < length hs1" by (auto simp: trees_def)
      with from_height [of tree] show ?thesis
        by (simp add: hs2)
    qed
    show "distinct trees"
      by (simp add: trees_def)
    show "max (primaryHeight details2) m + gapLimit w \<le> bound"
      by (rule range2)
    show "m < fuel"
      by (rule fuel)
  qed
  then obtain st3 details3 where
    rest: "scanTrees fuel cr w mt trees st2 details2 = Some (st3, Inr details3)"
    and h3: "trees \<noteq> [] \<longrightarrow> primaryHeight details3 \<le> m"
    and same: "trees = [] \<longrightarrow> details3 = details2"
    and kept3: "Q st2 \<longrightarrow> Q st3"
    by (elim exE conjE) (rule that)
  from h2 h3 same have below: "primaryHeight details3 \<le> m"
    by (cases "trees = []") auto
  have all: "scanTrees fuel cr w mt [0..<length (treeScannedHeights ?wd1)] ?st1 ?wd1 =
      Some (st3, Inr details3)"
    unfolding all_trees by (simp add: first rest)
  let ?st' = "st3\<lparr> db_details := Some details3,
                   scanLockPerChain := array_set (scanLockPerChain st3) chain False \<rparr>"
  have "scan fuel cr w chain st =
      (case scanTrees fuel cr w mt [0..<length (treeScannedHeights ?wd1)] ?st1 ?wd1 of
         None \<Rightarrow> None
       | Some (st2, Inl e) \<Rightarrow> Some (st2, Inl e)
       | Some (st2, Inr walletDetails2) \<Rightarrow>
           Some (st2\<lparr> db_details := Some walletDetails2,
                      scanLockPerChain := array_set (scanLockPerChain st2) chain False \<rparr>,
                 Inr ()))"
    using unlocked by (simp add: scan_def Let_def mirror wd1 hs1_def del: upt_Suc)
  then have ret: "scan fuel cr w chain st = Some (?st', Inr ())"
    unfolding all by simp
  have stored: "db_details ?st' \<noteq> None"
    by simp
  have height: "primaryHeight (getWalletDetails ?st') \<le> m"
    using below by (simp add: getWalletDetails_def)
  have start: "Q st = Q ?st1"
    by (rule db) simp
  have finish: "Q st3 = Q ?st'"
    by (rule db) simp
  from kept2 kept3 have kept: "Q st \<longrightarrow> Q ?st'"
    unfolding start finish [symmetric] by simp
  from reached2 kept3 have reached: "0 < primaryHeight ?wd + gapLimit w
         \<and> i \<le> primaryHeight ?wd + gapLimit w
         \<and> inUse cr w False 0 ?chain ?leaves0 i
         \<and> (\<forall>s. Q (fst (scanIndex cr w i False ?leaves0 0 ?chain s)))
        \<longrightarrow> Q ?st'"
    unfolding finish [symmetric] by simp
  show ?thesis
    by (intro exI conjI) (rule ret, rule stored, rule height, rule kept, rule reached)
qed

lemma scanIndex_keeps_leaf_record:
  assumes read: "readable cr w change leaves k"
    and same: "tree = 0 \<longrightarrow> leaves = leaves0"
    and held: "\<exists>c j. map_of (db_txos st) (chain, 0, p)
                 = recordedAt cr (derive_key w c j) j c 0 chain leaves0 p
               \<and> recordedAt cr (derive_key w c j) j c 0 chain leaves0 p \<noteq> None"
  shows "\<exists>c j. map_of (db_txos (fst (scanIndex cr w k change leaves tree chain st)))
                  (chain, 0, p)
                 = recordedAt cr (derive_key w c j) j c 0 chain leaves0 p
               \<and> recordedAt cr (derive_key w c j) j c 0 chain leaves0 p \<noteq> None"
proof -
  from scanIndex_reads [of leaves cr w change k tree chain st] readable_reads [OF read]
  obtain st' found where
    ret: "scanIndex cr w k change leaves tree chain st = (st', Inr found)"
    and content: "\<forall>c t p. map_of (db_txos st') (c, t, p) =
          (if c = chain \<and> t = tree
              \<and> recordedAt cr (derive_key w change k) k change tree chain leaves p \<noteq> None
           then recordedAt cr (derive_key w change k) k change tree chain leaves p
           else map_of (db_txos st) (c, t, p))"
    by blast
  show ?thesis
  proof (cases "0 = tree
      \<and> recordedAt cr (derive_key w change k) k change tree chain leaves p \<noteq> None")
    case True
    with same have l: "leaves = leaves0" and t: "tree = 0" by auto
    from content True have "map_of (db_txos st') (chain, 0, p) =
        recordedAt cr (derive_key w change k) k change 0 chain leaves0 p"
      by (simp add: l t)
    moreover from True have
      "recordedAt cr (derive_key w change k) k change 0 chain leaves0 p \<noteq> None"
      by (simp add: l t)
    ultimately show ?thesis
      unfolding ret by auto
  next
    case False
    with content have "map_of (db_txos st') (chain, 0, p) = map_of (db_txos st) (chain, 0, p)"
      by auto
    with held show ?thesis
      unfolding ret by simp
  qed
qed

text \<open>
  C7 (as amended). A pass of the sweep visits the closed range of derivation indexes
  from 0 to \<open>height + gapLimit\<close>, and the sweep of the first tree starts from the
  stored primary height. So, on an unlocked chain whose fetched leaves every key the
  scan tries can read (no index above \<open>m\<close> being in use among those it can try), one
  call of \<open>scan\<close> with enough fuel completes and

  \<^item> records the leaf of tree 0 that holds a note received at a primary index \<open>i\<close> of
    at most \<open>primaryHeight + gapLimit\<close> (this sum being positive): the database then
    holds, at the position of the leaf, the record of that leaf for a key of the
    wallet it is addressed to;

  \<^item> records nothing, and stores the primary height 0, when no index up to
    \<open>primaryHeight + gapLimit\<close> is in use in the fetched leaves, whatever notes
    the leaves hold for indexes beyond.
\<close>

theorem gap_limit_closed_range:
  assumes unlocked: "array_get (scanLockPerChain st) (int chain) \<noteq> Some True"
    and mirror: "merkletree w chain = Some mt"
    and sound: "\<forall>tree change k.
        k \<le> max (primaryHeight (getWalletDetails st)) m + gapLimit w \<longrightarrow>
          readable cr w change (fetchLeaves mt tree (scannedHeightOf st tree)) k
          \<and> (inUse cr w change tree (mt_chainID mt)
                (fetchLeaves mt tree (scannedHeightOf st tree)) k \<longrightarrow> k \<le> m)"
    and fuel: "m < fuel"
  shows "(0 < primaryHeight (getWalletDetails st) + gapLimit w
          \<and> i \<le> primaryHeight (getWalletDetails st) + gapLimit w
          \<and> recordedAt cr (derive_key w False i) i False 0 (mt_chainID mt)
               (fetchLeaves mt 0 (scannedHeightOf st 0)) p \<noteq> None
          \<longrightarrow> (\<exists>st' change k.
                 scan fuel cr w chain st = Some (st', Inr ())
               \<and> map_of (db_txos st') (mt_chainID mt, 0, p)
                   = recordedAt cr (derive_key w change k) k change 0 (mt_chainID mt)
                       (fetchLeaves mt 0 (scannedHeightOf st 0)) p
               \<and> map_of (db_txos st') (mt_chainID mt, 0, p) \<noteq> None))
       \<and> ((\<forall>tree change k.
              k \<le> primaryHeight (getWalletDetails st) + gapLimit w \<longrightarrow>
                \<not> inUse cr w change tree (mt_chainID mt)
                    (fetchLeaves mt tree (scannedHeightOf st tree)) k)
          \<longrightarrow> (\<exists>st'.
                 scan fuel cr w chain st = Some (st', Inr ())
               \<and> db_txos st' = db_txos st
               \<and> db_details st' \<noteq> None
               \<and> primaryHeight (getWalletDetails st') = 0))"
proof (intro conjI impI)
  let ?h = "primaryHeight (getWalletDetails st)"
  let ?chain = "mt_chainID mt"
  let ?leaves = "\<lambda>tree. fetchLeaves mt tree (scannedHeightOf st tree)"
  let ?Q = "\<lambda>s. \<exists>c j. map_of (db_txos s) (?chain, 0, p)
                 = recordedAt cr (derive_key w c j) j c 0 ?chain (?leaves 0) p
               \<and> recordedAt cr (derive_key w c j) j c 0 ?chain (?leaves 0) p \<noteq> None"
  assume a: "0 < ?h + gapLimit w \<and> i \<le> ?h + gapLimit w
          \<and> recordedAt cr (derive_key w False i) i False 0 ?chain (?leaves 0) p \<noteq> None"
  then have "i \<le> ?h + gapLimit w"
    by blast
  then have i: "i \<le> max ?h m + gapLimit w"
    by linarith
  from a have used: "inUse cr w False 0 ?chain (?leaves 0) i"
    unfolding inUse_iff by blast
  from sound i have read: "readable cr w False (?leaves 0) i"
    by blast
  have writes: "?Q (fst (scanIndex cr w i False (?leaves 0) 0 ?chain s))" for s
  proof -
    from a have r: "recordedAt cr (derive_key w False i) i False 0 ?chain (?leaves 0) p \<noteq> None"
      by simp
    from scanIndex_records [OF read r, of s] r show ?thesis
      by blast
  qed
  have "\<exists>st'. scan fuel cr w chain st = Some (st', Inr ())
    \<and> db_details st' \<noteq> None
    \<and> primaryHeight (getWalletDetails st') \<le> m
    \<and> (?Q st \<longrightarrow> ?Q st')
    \<and> (0 < ?h + gapLimit w \<and> i \<le> ?h + gapLimit w
         \<and> inUse cr w False 0 ?chain (?leaves 0) i
         \<and> (\<forall>s. ?Q (fst (scanIndex cr w i False (?leaves 0) 0 ?chain s)))
        \<longrightarrow> ?Q st')"
  proof (rule scan_general [OF unlocked mirror _ order_refl fuel])
    show "readable cr w change (?leaves tree) k
        \<and> (inUse cr w change tree ?chain (?leaves tree) k \<longrightarrow>
             k \<le> m
             \<and> (\<forall>s. ?Q s \<longrightarrow> ?Q (fst (scanIndex cr w k change (?leaves tree) tree ?chain s))))"
      if "k \<le> max ?h m + gapLimit w" for tree change k
    proof -
      from sound that have r: "readable cr w change (?leaves tree) k"
        and l: "inUse cr w change tree ?chain (?leaves tree) k \<longrightarrow> k \<le> m"
        by blast+
      have "?Q (fst (scanIndex cr w k change (?leaves tree) tree ?chain s))" if "?Q s" for s
        using r _ that by (rule scanIndex_keeps_leaf_record) simp
      with r l show ?thesis
        by blast
    qed
    show "?Q s = ?Q s'" if "db_txos s = db_txos s'" for s s'
      using that by simp
  qed
  then obtain st' where
    ret: "scan fuel cr w chain st = Some (st', Inr ())"
    and reached: "0 < ?h + gapLimit w \<and> i \<le> ?h + gapLimit w
         \<and> inUse cr w False 0 ?chain (?leaves 0) i
         \<and> (\<forall>s. ?Q (fst (scanIndex cr w i False (?leaves 0) 0 ?chain s)))
        \<longrightarrow> ?Q st'"
    by (elim exE conjE) (rule that)
  have every: "\<forall>s. ?Q (fst (scanIndex cr w i False (?leaves 0) 0 ?chain s))"
    by (intro allI) (rule writes)
  from a have "0 < ?h + gapLimit w"
    by (elim conjE)
  moreover from a have "i \<le> ?h + gapLimit w"
    by (elim conjE)
  moreover note used every
  ultimately have "0 < ?h + gapLimit w \<and> i \<le> ?h + gapLimit w
         \<and> inUse cr w False 0 ?chain (?leaves 0) i
         \<and> (\<forall>s. ?Q (fst (scanIndex cr w i False (?leaves 0) 0 ?chain s)))"
    by (intro conjI)
  with reached have "?Q st'"
    by (rule mp)
  with ret show "\<exists>st' change k.
                 scan fuel cr w chain st = Some (st', Inr ())
               \<and> map_of (db_txos st') (?chain, 0, p)
                   = recordedAt cr (derive_key w change k) k change 0 ?chain (?leaves 0) p
               \<and> map_of (db_txos st') (?chain, 0, p) \<noteq> None"
    by auto
next
  let ?h = "primaryHeight (getWalletDetails st)"
  let ?chain = "mt_chainID mt"
  let ?leaves = "\<lambda>tree. fetchLeaves mt tree (scannedHeightOf st tree)"
  let ?Q = "\<lambda>s. db_txos s = db_txos st"
  assume none: "\<forall>tree change k. k \<le> ?h + gapLimit w \<longrightarrow>
                \<not> inUse cr w change tree ?chain (?leaves tree) k"
  have "\<exists>st'. scan fuel cr w chain st = Some (st', Inr ())
    \<and> db_details st' \<noteq> None
    \<and> primaryHeight (getWalletDetails st') \<le> 0
    \<and> (?Q st \<longrightarrow> ?Q st')
    \<and> (0 < ?h + gapLimit w \<and> 0 \<le> ?h + gapLimit w
         \<and> inUse cr w False 0 ?chain (?leaves 0) 0
         \<and> (\<forall>s. ?Q (fst (scanIndex cr w 0 False (?leaves 0) 0 ?chain s)))
        \<longrightarrow> ?Q st')"
  proof (rule scan_general [OF unlocked mirror, where bound = "?h + gapLimit w"])
    show "readable cr w change (?leaves tree) k
        \<and> (inUse cr w change tree ?chain (?leaves tree) k \<longrightarrow>
             k \<le> 0
             \<and> (\<forall>s. ?Q s \<longrightarrow> ?Q (fst (scanIndex cr w k change (?leaves tree) tree ?chain s))))"
      if "k \<le> ?h + gapLimit w" for tree change k
    proof -
      from that have "k \<le> max ?h m + gapLimit w" by linarith
      with sound have "readable cr w change (?leaves tree) k"
        by blast
      moreover from none that have "\<not> inUse cr w change tree ?chain (?leaves tree) k"
        by blast
      ultimately show ?thesis
        by blast
    qed
    show "max ?h 0 + gapLimit w \<le> ?h + gapLimit w"
      by simp
    show "0 < fuel"
      using fuel by simp
    show "?Q s = ?Q s'" if "db_txos s = db_txos s'" for s s'
      using that by simp
  qed
  then show "\<exists>st'. scan fuel cr w chain st = Some (st', Inr ())
               \<and> db_txos st' = db_txos st
               \<and> db_details st' \<noteq> None
               \<and> primaryHeight (getWalletDetails st') = 0"
    by auto
qed

lemma demo_no_leaves: "tree \<noteq> 0 \<Longrightarrow> fetchLeaves (demo_tree leaves) tree scannedHeight = []"
  by (simp add: fetchLeaves_def demo_tree_def)

lemma readable_no_leaves: "readable cr w change [] k"
  by (simp add: readable_def)

lemma inUse_no_leaves: "\<not> inUse cr w change tree chain [] k"
  by (simp add: inUse_def)

lemma checked_up_to:
  assumes "list_all (\<lambda>k. list_all (P k) [False, True]) [0..<Suc bound]" "k \<le> bound"
  shows "P k change"
proof -
  from assms have "list_all (P k) [False, True]"
    by (simp add: list_all_iff del: upt_Suc)
  then show ?thesis
    by (cases change) simp_all
qed

lemma demo_found_leaves:
  "list_all (\<lambda>k. list_all (\<lambda>change.
       readable demo_crypto (demo_wallet [note_to 3 7, note_to 8 7]) change
         (fetchLeaves (demo_tree [note_to 3 7, note_to 8 7]) 0
            (scannedHeightOf (scanned_state [0] 3) 0)) k
       \<and> (inUse demo_crypto (demo_wallet [note_to 3 7, note_to 8 7]) change 0
             (mt_chainID (demo_tree [note_to 3 7, note_to 8 7]))
             (fetchLeaves (demo_tree [note_to 3 7, note_to 8 7]) 0
                (scannedHeightOf (scanned_state [0] 3) 0)) k
           \<longrightarrow> k \<le> 8)) [False, True]) [0..<Suc 13]"
  by code_simp

lemma demo_found_note:
  "recordedAt demo_crypto (derive_key (demo_wallet [note_to 3 7, note_to 8 7]) False 8) 8 False
     0 (mt_chainID (demo_tree [note_to 3 7, note_to 8 7]))
     (fetchLeaves (demo_tree [note_to 3 7, note_to 8 7]) 0
        (scannedHeightOf (scanned_state [0] 3) 0)) 1 \<noteq> None"
  by code_simp

lemma demo_missed_leaves:
  "list_all (\<lambda>k. list_all (\<lambda>change.
       readable demo_crypto (demo_wallet [note_to 3 7, foreign_note, note_to 9 7]) change
         (fetchLeaves (demo_tree [note_to 3 7, foreign_note, note_to 9 7]) 0
            (scannedHeightOf (scanned_state [1] 3) 0)) k
       \<and> (inUse demo_crypto (demo_wallet [note_to 3 7, foreign_note, note_to 9 7]) change 0
             (mt_chainID (demo_tree [note_to 3 7, foreign_note, note_to 9 7]))
             (fetchLeaves (demo_tree [note_to 3 7, foreign_note, note_to 9 7]) 0
                (scannedHeightOf (scanned_state [1] 3) 0)) k
           \<longrightarrow> k \<le> 9)) [False, True]) [0..<Suc 14]"
  by code_simp

lemma demo_missed_gap:
  "list_all (\<lambda>k. list_all (\<lambda>change.
       \<not> inUse demo_crypto (demo_wallet [note_to 3 7, foreign_note, note_to 9 7]) change 0
             (mt_chainID (demo_tree [note_to 3 7, foreign_note, note_to 9 7]))
             (fetchLeaves (demo_tree [note_to 3 7, foreign_note, note_to 9 7]) 0
                (scannedHeightOf (scanned_state [1] 3) 0)) k) [False, True]) [0..<Suc 8]"
  by code_simp

lemma demo_missed_note:
  "recordedAt demo_crypto (demo_keypair False 9) 9 False 0 1
     (fetchLeaves (demo_tree [note_to 3 7, foreign_note, note_to 9 7]) 0 1) 2 \<noteq> None"
  by code_simp

lemma demo_scanned_state:
  "array_get (scanLockPerChain (scanned_state heights height)) (int chain) \<noteq> Some True"
  "primaryHeight (getWalletDetails (scanned_state heights height)) = height"
  "db_txos (scanned_state heights height) = []"
  by (simp_all add: scanned_state_def getWalletDetails_def array_get_def)

lemma demo_mirror:
  "merkletree (demo_wallet leaves) 1 = Some (demo_tree leaves)"
  "gapLimit (demo_wallet leaves) = 5"
  "mt_chainID (demo_tree leaves) = 1"
  by (simp_all add: demo_wallet_def demo_tree_def)

theorem gap_limit_closed_range_witness:
  "(\<exists>st'. scan 9 demo_crypto (demo_wallet [note_to 3 7, note_to 8 7]) 1 (scanned_state [0] 3)
            = Some (st', Inr ())
        \<and> map_of (db_txos st') (1, 0, 1) \<noteq> None)
   \<and> (\<exists>st'. scan 10 demo_crypto (demo_wallet [note_to 3 7, foreign_note, note_to 9 7]) 1
              (scanned_state [1] 3)
            = Some (st', Inr ())
        \<and> db_txos st' = []
        \<and> primaryHeight (getWalletDetails st') = 0)
   \<and> recordedAt demo_crypto (demo_keypair False 9) 9 False 0 1
       (fetchLeaves (demo_tree [note_to 3 7, foreign_note, note_to 9 7]) 0 1) 2 \<noteq> None"
proof -
  let ?found = "[note_to 3 7, note_to 8 7]"
  let ?missed = "[note_to 3 7, foreign_note, note_to 9 7]"
  have sound1: "\<forall>tree change k.
        k \<le> max (primaryHeight (getWalletDetails (scanned_state [0] 3))) 8
              + gapLimit (demo_wallet ?found) \<longrightarrow>
          readable demo_crypto (demo_wallet ?found) change
            (fetchLeaves (demo_tree ?found) tree (scannedHeightOf (scanned_state [0] 3) tree)) k
          \<and> (inUse demo_crypto (demo_wallet ?found) change tree (mt_chainID (demo_tree ?found))
                (fetchLeaves (demo_tree ?found) tree
                   (scannedHeightOf (scanned_state [0] 3) tree)) k \<longrightarrow> k \<le> 8)"
  proof (intro allI impI)
    fix tree change k
    assume "k \<le> max (primaryHeight (getWalletDetails (scanned_state [0] 3))) 8
              + gapLimit (demo_wallet ?found)"
    then have k: "k \<le> 13"
      by (simp add: demo_scanned_state demo_mirror)
    show "readable demo_crypto (demo_wallet ?found) change
            (fetchLeaves (demo_tree ?found) tree (scannedHeightOf (scanned_state [0] 3) tree)) k
          \<and> (inUse demo_crypto (demo_wallet ?found) change tree (mt_chainID (demo_tree ?found))
                (fetchLeaves (demo_tree ?found) tree
                   (scannedHeightOf (scanned_state [0] 3) tree)) k \<longrightarrow> k \<le> 8)"
    proof (cases "tree = 0")
      case True
      from checked_up_to [OF demo_found_leaves k, of change] show ?thesis
        unfolding True .
    next
      case False
      then show ?thesis
        by (simp add: demo_no_leaves readable_no_leaves inUse_no_leaves)
    qed
  qed
  note t1 = gap_limit_closed_range
    [where st = "scanned_state [0] 3" and chain = 1 and w = "demo_wallet ?found"
       and mt = "demo_tree ?found" and cr = demo_crypto and m = 8 and fuel = 9
       and i = 8 and p = 1,
     OF demo_scanned_state(1) demo_mirror(1) sound1]
  have reach: "0 < primaryHeight (getWalletDetails (scanned_state [0] 3))
                   + gapLimit (demo_wallet ?found)
      \<and> 8 \<le> primaryHeight (getWalletDetails (scanned_state [0] 3))
                + gapLimit (demo_wallet ?found)
      \<and> recordedAt demo_crypto (derive_key (demo_wallet ?found) False 8) 8 False 0
           (mt_chainID (demo_tree ?found))
           (fetchLeaves (demo_tree ?found) 0 (scannedHeightOf (scanned_state [0] 3) 0)) 1
          \<noteq> None"
    using demo_found_note by (simp add: demo_scanned_state demo_mirror)
  have "(8::nat) < 9" by simp
  from mp [OF conjunct1 [OF t1 [OF this]] reach]
  have w1: "\<exists>st'. scan 9 demo_crypto (demo_wallet ?found) 1 (scanned_state [0] 3)
            = Some (st', Inr ())
        \<and> map_of (db_txos st') (1, 0, 1) \<noteq> None"
    by (auto simp: demo_mirror)
  have sound2: "\<forall>tree change k.
        k \<le> max (primaryHeight (getWalletDetails (scanned_state [1] 3))) 9
              + gapLimit (demo_wallet ?missed) \<longrightarrow>
          readable demo_crypto (demo_wallet ?missed) change
            (fetchLeaves (demo_tree ?missed) tree (scannedHeightOf (scanned_state [1] 3) tree)) k
          \<and> (inUse demo_crypto (demo_wallet ?missed) change tree (mt_chainID (demo_tree ?missed))
                (fetchLeaves (demo_tree ?missed) tree
                   (scannedHeightOf (scanned_state [1] 3) tree)) k \<longrightarrow> k \<le> 9)"
  proof (intro allI impI)
    fix tree change k
    assume "k \<le> max (primaryHeight (getWalletDetails (scanned_state [1] 3))) 9
              + gapLimit (demo_wallet ?missed)"
    then have k: "k \<le> 14"
      by (simp add: demo_scanned_state demo_mirror)
    show "readable demo_crypto (demo_wallet ?missed) change
            (fetchLeaves (demo_tree ?missed) tree (scannedHeightOf (scanned_state [1] 3) tree)) k
          \<and> (inUse demo_crypto (demo_wallet ?missed) change tree (mt_chainID (demo_tree ?missed))
                (fetchLeaves (demo_tree ?missed) tree
                   (scannedHeightOf (scanned_state [1] 3) tree)) k \<longrightarrow> k \<le> 9)"
    proof (cases "tree = 0")
      case True
      from checked_up_to [OF demo_missed_leaves k, of change] show ?thesis
        unfolding True .
    next
      case False
      then show ?thesis
        by (simp add: demo_no_leaves readable_no_leaves inUse_no_leaves)
    qed
  qed
  have quiet: "\<forall>tree change k.
        k \<le> primaryHeight (getWalletDetails (scanned_state [1] 3))
              + gapLimit (demo_wallet ?missed) \<longrightarrow>
          \<not> inUse demo_crypto (demo_wallet ?missed) change tree (mt_chainID (demo_tree ?missed))
                (fetchLeaves (demo_tree ?missed) tree
                   (scannedHeightOf (scanned_state [1] 3) tree)) k"
  proof (intro allI impI)
    fix tree change k
    assume "k \<le> primaryHeight (getWalletDetails (scanned_state [1] 3))
              + gapLimit (demo_wallet ?missed)"
    then have k: "k \<le> 8"
      by (simp add: demo_scanned_state demo_mirror)
    show "\<not> inUse demo_crypto (demo_wallet ?missed) change tree (mt_chainID (demo_tree ?missed))
                (fetchLeaves (demo_tree ?missed) tree
                   (scannedHeightOf (scanned_state [1] 3) tree)) k"
    proof (cases "tree = 0")
      case True
      from checked_up_to [OF demo_missed_gap k, of change] show ?thesis
        unfolding True .
    next
      case False
      then show ?thesis
        by (simp add: demo_no_leaves inUse_no_leaves)
    qed
  qed
  note t2 = gap_limit_closed_range
    [where st = "scanned_state [1] 3" and chain = 1 and w = "demo_wallet ?missed"
       and mt = "demo_tree ?missed" and cr = demo_crypto and m = 9 and fuel = 10,
     OF demo_scanned_state(1) demo_mirror(1) sound2]
  have "(9::nat) < 10" by simp
  from mp [OF conjunct2 [OF t2 [OF this]] quiet]
  have w2: "\<exists>st'. scan 10 demo_crypto (demo_wallet ?missed) 1 (scanned_state [1] 3)
            = Some (st', Inr ())
        \<and> db_txos st' = []
        \<and> primaryHeight (getWalletDetails st') = 0"
    by (auto simp: demo_scanned_state)
  from w1 w2 demo_missed_note show ?thesis
    by (intro conjI)
qed

text \<open>
  The claim as stated fails: with the default gap limit 5 and a primary height of 0,
  a single scan detects a note received at derivation index 0 + 5, the index the
  claim puts outside the range, and one at index 6 is the first it misses. From a
  stored primary height of 3, with no other note in the tree, a scan likewise detects
  a note received at index 3 + 5 and misses one received at index 9.
\<close>

theorem gap_limit_half_open_counterexample:
  "primaryHeight (getWalletDetails empty_state) = 0
   \<and> gapLimit (demo_wallet [note_to 5 7]) = 5
   \<and> scan 5 demo_crypto (demo_wallet [note_to 5 7]) 1 empty_state
     = Some (\<lparr> db_txos =
                  [((1, 0, 0),
                    \<lparr> st_index = 5, st_change = False, st_spendtxid = None, st_txid = [0],
                      st_nullifier = [0, 5, 0, 0], st_decrypted = [0, 5, 7] \<rparr>)],
                db_details = Some \<lparr> treeScannedHeights = [0], primaryHeight = 5,
                                     changeHeight = 0 \<rparr>,
                scanLockPerChain = [None, Some False] \<rparr>,
             Inr ())
   \<and> scan 5 demo_crypto (demo_wallet [note_to 6 7]) 1 empty_state
     = Some (\<lparr> db_txos = [],
                db_details = Some \<lparr> treeScannedHeights = [0], primaryHeight = 0,
                                     changeHeight = 0 \<rparr>,
                scanLockPerChain = [None, Some False] \<rparr>,
             Inr ())
   \<and> primaryHeight (getWalletDetails (scanned_state [0] 3)) = 3
   \<and> scan 5 demo_crypto (demo_wallet [note_to 8 7]) 1 (scanned_state [0] 3)
     = Some (\<lparr> db_txos =
                  [((1, 0, 0),
                    \<lparr> st_index = 8, st_change = False, st_spendtxid = None, st_txid = [0],
                      st_nullifier = [0, 8, 0, 0], st_decrypted = [0, 8, 7] \<rparr>)],
                db_details = Some \<lparr> treeScannedHeights = [0], primaryHeight = 8,
                                     changeHeight = 0 \<rparr>,
                scanLockPerChain = [None, Some False] \<rparr>,
             Inr ())
   \<and> scan 5 demo_crypto (demo_wallet [note_to 9 7]) 1 (scanned_state [0] 3)
     = Some (\<lparr> db_txos = [],
                db_details = Some \<lparr> treeScannedHeights = [0], primaryHeight = 0,
                                     changeHeight = 0 \<rparr>,
                scanLockPerChain = [None, Some False] \<rparr>,
             Inr ())"
  by code_simp

section \<open>Scanning twice\<close>

text \<open>
  C8. A second scan right after a completed one, with nothing new on the chain, is
  to leave the wallet details as they are. The code does not: the tree holds a note
  received at primary index 3 and, after it, a note of another wallet. The first scan
  records the note and persists the primary height 3; the second scan fetches the
  last leaf only, finds no index in use, and persists the primary height 0.
\<close>

theorem scan_twice_resets_height:
  "scan 5 demo_crypto (demo_wallet [note_to 3 7, foreign_note]) 1 empty_state
     = Some (\<lparr> db_txos =
                  [((1, 0, 0),
                    \<lparr> st_index = 3, st_change = False, st_spendtxid = None, st_txid = [0],
                      st_nullifier = [0, 3, 0, 0], st_decrypted = [0, 3, 7] \<rparr>)],
                db_details = Some \<lparr> treeScannedHeights = [1], primaryHeight = 3,
                                     changeHeight = 0 \<rparr>,
                scanLockPerChain = [None, Some False] \<rparr>,
             Inr ())
   \<and> scan 5 demo_crypto (demo_wallet [note_to 3 7, foreign_note]) 1
        \<lparr> db_txos =
            [((1, 0, 0),
              \<lparr> st_index = 3, st_change = False, st_spendtxid = None, st_txid = [0],
                st_nullifier = [0, 3, 0, 0], st_decrypted = [0, 3, 7] \<rparr>)],
          db_details = Some \<lparr> treeScannedHeights = [1], primaryHeight = 3,
                               changeHeight = 0 \<rparr>,
          scanLockPerChain = [None, Some False] \<rparr>
     = Some (\<lparr> db_txos =
                  [((1, 0, 0),
                    \<lparr> st_index = 3, st_change = False, st_spendtxid = None, st_txid = [0],
                      st_nullifier = [0, 3, 0, 0], st_decrypted = [0, 3, 7] \<rparr>)],
                db_details = Some \<lparr> treeScannedHeights = [1], primaryHeight = 0,
                                     changeHeight = 0 \<rparr>,
                scanLockPerChain = [None, Some False] \<rparr>,
             Inr ())"
  by code_simp

section \<open>The transaction builder\<close>

lemma awaitAll_length: "awaitAll promises = Inr vals \<Longrightarrow> length vals = length promises"
proof (induction promises arbitrary: vals)
  case Nil
  then show ?case by simp
next
  case (Cons p promises)
  then show ?case
    by (cases p) (auto split: sum.splits)
qed

lemma mapE_length: "mapE f xs = Inr ys \<Longrightarrow> length ys = length xs"
  by (auto simp: mapE_def dest: awaitAll_length)

lemma spendValues_lengths:
  "spendValues cr w encKey chain tree utxos = Inr vals \<Longrightarrow>
     length (sv_spendingKeys vals) = length utxos
     \<and> length (sv_nullifiers vals) = length utxos
     \<and> length (sv_pathElements vals) = length utxos
     \<and> length (sv_pathIndices vals) = length utxos"
proof (induction utxos arbitrary: vals)
  case Nil
  then show ?case by auto
next
  case (Cons utxo utxos)
  from Cons.prems obtain rest where
    rest: "spendValues cr w encKey chain tree utxos = Inr rest"
    and shape: "length (sv_spendingKeys vals) = Suc (length (sv_spendingKeys rest))"
      "length (sv_nullifiers vals) = Suc (length (sv_nullifiers rest))"
      "length (sv_pathElements vals) = Suc (length (sv_pathElements rest))"
      "length (sv_pathIndices vals) = Suc (length (sv_pathIndices rest))"
    by (auto split: sum.splits)
  from Cons.IH [OF rest] shape show ?case by simp
qed

lemma outputNotes_shape:
  "outputNotes cr tx changePubkey change =
     tx_outputs tx
     @ [\<lparr> note_pubkey = changePubkey, note_random = random cr ChangeRandom,
           note_amount = BN change, note_token = tx_token tx \<rparr>]
     @ map (dummyOutput cr (tx_token tx)) [0..<2 - length (tx_outputs tx)]"
  by (simp add: outputNotes_def NOTE_OUTPUTS_def Let_def)

lemma outputNotes_length:
  "length (tx_outputs tx) \<le> 2 \<Longrightarrow> length (outputNotes cr tx changePubkey change) = 3"
  by (simp add: outputNotes_shape)

lemma sumUTXOs_values:
  "sumUTXOs utxos =
     foldl (\<lambda>left right. left + numberify right) 0
       (map (\<lambda>utxo. note_amount (txo_note utxo)) utxos)"
  by (simp add: sumUTXOs_def foldl_map)

text \<open>What a successful assembly returns, field by field.\<close>

lemma assembleInputs_fields:
  assumes "assembleInputs cr w tx encKey tree solution = Inr g"
  shows "\<exists>vals changeKey.
    spendValues cr w encKey (tx_chainID tx) tree solution = Inr vals
    \<and> getKeypair w encKey 0 True None = Inr changeKey
    \<and> nullifiers (gi_inputs g) = sv_nullifiers vals
    \<and> spendingKeys (gi_inputs g) = sv_spendingKeys vals
    \<and> pathElements (gi_inputs g) = sv_pathElements vals
    \<and> pathIndices (gi_inputs g) = sv_pathIndices vals
    \<and> randomIn (gi_inputs g) = map (\<lambda>utxo. Hex (note_random (txo_note utxo))) solution
    \<and> valuesIn (gi_inputs g) = map (\<lambda>utxo. note_amount (txo_note utxo)) solution
    \<and> recipientPK (gi_inputs g) = map (\<lambda>output. Hex (note_pubkey output))
       (outputNotes cr tx (kp_pubkey changeKey)
          (sumUTXOs solution + tx_deposit tx - (sumNotes (tx_outputs tx) + tx_withdraw tx)))
    \<and> randomOut (gi_inputs g) = map (\<lambda>output. Hex (note_random output))
       (outputNotes cr tx (kp_pubkey changeKey)
          (sumUTXOs solution + tx_deposit tx - (sumNotes (tx_outputs tx) + tx_withdraw tx)))
    \<and> valuesOut (gi_inputs g) = map note_amount
       (outputNotes cr tx (kp_pubkey changeKey)
          (sumUTXOs solution + tx_deposit tx - (sumNotes (tx_outputs tx) + tx_withdraw tx)))
    \<and> length (commitmentsOut (gi_inputs g)) =
       length (outputNotes cr tx (kp_pubkey changeKey)
          (sumUTXOs solution + tx_deposit tx - (sumNotes (tx_outputs tx) + tx_withdraw tx)))
    \<and> length (gi_commitments g) =
       length (outputNotes cr tx (kp_pubkey changeKey)
          (sumUTXOs solution + tx_deposit tx - (sumNotes (tx_outputs tx) + tx_withdraw tx)))"
proof -
  let ?change = "sumUTXOs solution + tx_deposit tx - (sumNotes (tx_outputs tx) + tx_withdraw tx)"
  from assms obtain vals changeKey ciphertext root hashes chash where
    v: "spendValues cr w encKey (tx_chainID tx) tree solution = Inr vals"
    and k: "getKeypair w encKey 0 True None = Inr changeKey"
    and c: "mapE (outputCiphertext cr w encKey)
              (zip [0..<length (outputNotes cr tx (kp_pubkey changeKey) ?change)]
                 (outputNotes cr tx (kp_pubkey changeKey) ?change)) = Inr ciphertext"
    and h: "mapE (note_hash cr) (outputNotes cr tx (kp_pubkey changeKey) ?change) = Inr hashes"
    and g: "g = \<lparr> gi_inputs = formatInputs cr tx tree root solution vals
                       (outputNotes cr tx (kp_pubkey changeKey) ?change) hashes chash,
                   gi_commitments = formatCommitments hashes ciphertext \<rparr>"
    unfolding assembleInputs_def Let_def
    by (auto split: sum.splits option.splits)
  from mapE_length [OF c] mapE_length [OF h]
  have "length (formatCommitments hashes ciphertext) =
          length (outputNotes cr tx (kp_pubkey changeKey) ?change)"
    and "length hashes = length (outputNotes cr tx (kp_pubkey changeKey) ?change)"
    by (simp_all add: formatCommitments_def)
  with v k show ?thesis
    unfolding g by (simp add: formatInputs_def)
qed

lemma getKeypair_Inr:
  "getKeypair w encKey index change chain = Inr keypair \<Longrightarrow> keypair = derive_key w change index"
  by (auto simp: getKeypair_def split: if_splits)

text \<open>A successful \<open>generateInputs\<close> has passed every check and assembled a solution.\<close>

lemma generateInputs_Inr:
  assumes "generateInputs cr w tx encKey st = (st', Inr g)"
  shows "length (tx_outputs tx) \<le> 2
    \<and> tokenMismatch (tx_token tx) 0 (tx_outputs tx) = None
    \<and> (\<exists>txos. TXOs cr w (tx_chainID tx) st = (st', Inr txos)
          \<and> buildInputs cr w tx encKey txos = Inr g)"
  using assms
  by (auto simp: generateInputs_def split: if_splits option.splits prod.splits sum.splits)

lemma buildInputs_Inr:
  assumes "buildInputs cr w tx encKey txos = Inr g"
  shows "\<exists>solutions tree solution.
    solutions_from cr (tx_token tx)
       (sumNotes (tx_outputs tx) + tx_withdraw tx - tx_deposit tx) 0
       (case balancesByTree txos (tx_token tx) of None \<Rightarrow> [] | Some byTree \<Rightarrow> byTree)
      = Inr solutions
    \<and> chooseTree (tx_tree tx) solutions = Inr tree
    \<and> tree \<noteq> - 1
    \<and> array_get solutions tree = Some solution
    \<and> assembleInputs cr w tx encKey (nat tree) solution = Inr g"
  using assms unfolding buildInputs_def Let_def
  by (auto split: if_splits option.splits sum.splits)

text \<open>
  C10. Every successful \<open>generateInputs\<close> returns exactly three output commitments:
  first the outputs of the transaction (at most two), then one change note, addressed
  to the change key pair of the wallet at derivation index 0 and of amount the total
  of the inputs and the deposit less the total of the outputs and the withdrawal
  (also when that amount is 0), then dummy notes of amount 0 under fresh keys.
\<close>

theorem change_note_always_emitted:
  assumes "generateInputs cr w tx encKey st = (st', Inr g)"
  shows "length (tx_outputs tx) \<le> 2
    \<and> length (recipientPK (gi_inputs g)) = 3
    \<and> length (randomOut (gi_inputs g)) = 3
    \<and> length (valuesOut (gi_inputs g)) = 3
    \<and> length (commitmentsOut (gi_inputs g)) = 3
    \<and> length (gi_commitments g) = 3
    \<and> take (length (tx_outputs tx)) (recipientPK (gi_inputs g)) =
         map (\<lambda>output. Hex (note_pubkey output)) (tx_outputs tx)
    \<and> take (length (tx_outputs tx)) (valuesOut (gi_inputs g)) =
         map note_amount (tx_outputs tx)
    \<and> recipientPK (gi_inputs g) ! length (tx_outputs tx) = Hex (kp_pubkey (derive_key w True 0))
    \<and> valuesOut (gi_inputs g) ! length (tx_outputs tx) =
         BN (foldl (\<lambda>left right. left + numberify right) 0 (valuesIn (gi_inputs g))
               + tx_deposit tx
             - (sumNotes (tx_outputs tx) + tx_withdraw tx))
    \<and> drop (Suc (length (tx_outputs tx))) (valuesOut (gi_inputs g)) =
         replicate (2 - length (tx_outputs tx)) (BN 0)
    \<and> drop (Suc (length (tx_outputs tx))) (recipientPK (gi_inputs g)) =
         map (\<lambda>k. Hex (privateKeyToPubKey cr
                          (seedToPrivateKey cr (random cr (DummyOutputKey k)))))
           [0..<2 - length (tx_outputs tx)]"
proof -
  from generateInputs_Inr [OF assms] obtain txos where
    n: "length (tx_outputs tx) \<le> 2" and b: "buildInputs cr w tx encKey txos = Inr g"
    by blast
  from buildInputs_Inr [OF b] obtain tree solution where
    "assembleInputs cr w tx encKey tree solution = Inr g"
    by blast
  from assembleInputs_fields [OF this] obtain changeKey where
    k: "getKeypair w encKey 0 True None = Inr changeKey"
    and vin: "valuesIn (gi_inputs g) = map (\<lambda>utxo. note_amount (txo_note utxo)) solution"
    and pk: "recipientPK (gi_inputs g) = map (\<lambda>output. Hex (note_pubkey output))
       (outputNotes cr tx (kp_pubkey changeKey)
          (sumUTXOs solution + tx_deposit tx - (sumNotes (tx_outputs tx) + tx_withdraw tx)))"
    and ro: "randomOut (gi_inputs g) = map (\<lambda>output. Hex (note_random output))
       (outputNotes cr tx (kp_pubkey changeKey)
          (sumUTXOs solution + tx_deposit tx - (sumNotes (tx_outputs tx) + tx_withdraw tx)))"
    and vo: "valuesOut (gi_inputs g) = map note_amount
       (outputNotes cr tx (kp_pubkey changeKey)
          (sumUTXOs solution + tx_deposit tx - (sumNotes (tx_outputs tx) + tx_withdraw tx)))"
    and co: "length (commitmentsOut (gi_inputs g)) =
       length (outputNotes cr tx (kp_pubkey changeKey)
          (sumUTXOs solution + tx_deposit tx - (sumNotes (tx_outputs tx) + tx_withdraw tx)))"
    and gc: "length (gi_commitments g) =
       length (outputNotes cr tx (kp_pubkey changeKey)
          (sumUTXOs solution + tx_deposit tx - (sumNotes (tx_outputs tx) + tx_withdraw tx)))"
    by blast
  have key: "changeKey = derive_key w True 0"
    using k by (rule getKeypair_Inr)
  have total: "sumUTXOs solution =
      foldl (\<lambda>left right. left + numberify right) 0 (valuesIn (gi_inputs g))"
    by (simp add: vin sumUTXOs_values)
  have len: "length (outputNotes cr tx pubkey change) = 3" for pubkey change
    using n by (rule outputNotes_length)
  have dummy: "note_amount (dummyOutput cr token k) = BN 0"
    "note_pubkey (dummyOutput cr token k) =
       privateKeyToPubKey cr (seedToPrivateKey cr (random cr (DummyOutputKey k)))" for token k
    by (simp_all add: dummyOutput_def)
  show ?thesis
    unfolding pk ro vo co gc len
    using n
    by (simp add: outputNotes_shape nth_append key total dummy comp_def map_replicate_const)
qed


lemma demo_exact_spend:
  "(case snd (generateInputs demo_crypto (demo_wallet []) (transfer 10 None) (Hex [1])
                (state_with [stored_note 0 0 10])) of
      Inl e \<Rightarrow> False
    | Inr g \<Rightarrow> valuesIn (gi_inputs g) = [Hex [10], Hex [0]])"
  by code_simp

theorem change_note_always_emitted_witness:
  "\<exists>st' g. generateInputs demo_crypto (demo_wallet []) (transfer 10 None) (Hex [1])
              (state_with [stored_note 0 0 10]) = (st', Inr g)
     \<and> length (commitmentsOut (gi_inputs g)) = 3
     \<and> recipientPK (gi_inputs g) ! 1 = Hex [1, 0]
     \<and> valuesOut (gi_inputs g) ! 1 = BN 0"
proof -
  from demo_exact_spend obtain st' g where
    gen: "generateInputs demo_crypto (demo_wallet []) (transfer 10 None) (Hex [1])
            (state_with [stored_note 0 0 10]) = (st', Inr g)"
    and vin: "valuesIn (gi_inputs g) = [Hex [10], Hex [0]]"
    by (cases "generateInputs demo_crypto (demo_wallet []) (transfer 10 None) (Hex [1])
                 (state_with [stored_note 0 0 10])")
       (auto split: sum.splits)
  note t = change_note_always_emitted [OF gen]
  have n: "length (tx_outputs (transfer 10 None)) = 1"
    by (simp add: transfer_def)
  from t have "length (commitmentsOut (gi_inputs g)) = 3"
    by blast
  moreover from t have "recipientPK (gi_inputs g) ! length (tx_outputs (transfer 10 None))
      = Hex (kp_pubkey (derive_key (demo_wallet []) True 0))"
    by blast
  then have "recipientPK (gi_inputs g) ! 1 = Hex [1, 0]"
    by (simp add: n demo_wallet_def demo_keypair_def)
  moreover from t have "valuesOut (gi_inputs g) ! length (tx_outputs (transfer 10 None)) =
         BN (foldl (\<lambda>left right. left + numberify right) 0 (valuesIn (gi_inputs g))
               + tx_deposit (transfer 10 None)
             - (sumNotes (tx_outputs (transfer 10 None)) + tx_withdraw (transfer 10 None)))"
    by blast
  then have "valuesOut (gi_inputs g) ! 1 = BN 0"
    by (simp add: n vin transfer_def sumNotes_def nat_of_bytes_def)
  ultimately show ?thesis
    using gen by blast
qed

section \<open>Spending solutions\<close>

lemma accumulate_length:
  "accumulate totalRequired utxos remaining = Inr selected \<Longrightarrow>
   length selected \<le> length utxos + length remaining"
proof (induction remaining arbitrary: utxos)
  case Nil
  then show ?case by (auto split: if_splits)
next
  case (Cons u remaining)
  show ?case
  proof (cases "sumUTXOs utxos < totalRequired")
    case True
    with Cons.prems have "accumulate totalRequired (utxos @ [u]) remaining = Inr selected"
      by simp
    from Cons.IH [OF this] show ?thesis by simp
  next
    case False
    with Cons.prems show ?thesis by simp
  qed
qed

lemma fillUTXOs_length:
  assumes "length utxos \<le> len" "length utxos \<le> length sortedUTXOs"
  shows "length (fillUTXOs cr token tree sortedUTXOs utxos len) = len"
  using assms by (auto simp: fillUTXOs_def)

lemma treeSolution_length:
  assumes "treeSolution cr token totalRequired tree treeBalance = Inr solution"
  shows "length solution = 0 \<or> length solution = 2 \<or> length solution = 10"
proof (cases "tb_balance treeBalance < totalRequired")
  case True
  with assms show ?thesis by (simp add: treeSolution_def)
next
  case False
  let ?sorted = "sort_key (\<lambda>utxo. - numberify (note_amount (txo_note utxo)))
                   (tb_utxos treeBalance)"
  from assms False obtain utxos where
    acc: "accumulate totalRequired [] ?sorted = Inr utxos"
    and sol: "solution =
      (if length utxos \<le> NOTE_INPUTS_small
       then fillUTXOs cr token tree ?sorted utxos NOTE_INPUTS_small
       else if length utxos \<le> NOTE_INPUTS_large
       then fillUTXOs cr token tree ?sorted utxos NOTE_INPUTS_large
       else [])"
    by (auto simp: treeSolution_def Let_def split: sum.splits if_splits)
  from accumulate_length [OF acc] have "length utxos \<le> length ?sorted"
    by simp
  with sol show ?thesis
    by (auto simp: fillUTXOs_length NOTE_INPUTS_small_def NOTE_INPUTS_large_def)
qed

lemma solutions_from_lengths:
  "solutions_from cr token totalRequired tree slots = Inr solutions \<Longrightarrow>
   Some solution \<in> set solutions \<Longrightarrow>
   length solution = 0 \<or> length solution = 2 \<or> length solution = 10"
proof (induction slots arbitrary: tree solutions)
  case Nil
  then show ?case by simp
next
  case (Cons slot slots)
  show ?case
  proof (cases slot)
    case None
    with Cons.prems obtain rest where
      "solutions_from cr token totalRequired (Suc tree) slots = Inr rest"
      "solutions = None # rest"
      by (auto split: sum.splits)
    with Cons.IH [of "Suc tree" rest] Cons.prems(2) show ?thesis by auto
  next
    case (Some treeBalance)
    with Cons.prems obtain first rest where
      f: "treeSolution cr token totalRequired tree treeBalance = Inr first"
      and r: "solutions_from cr token totalRequired (Suc tree) slots = Inr rest"
      and s: "solutions = Some first # rest"
      by (auto split: sum.splits)
    from Cons.prems(2) s consider "solution = first" | "Some solution \<in> set rest"
      by auto
    then show ?thesis
    proof cases
      case 1
      with treeSolution_length [OF f] show ?thesis by simp
    next
      case 2
      with Cons.IH [OF r] show ?thesis by simp
    qed
  qed
qed

lemma solutions_from_empty:
  "(\<And>j. j < length treeBalances \<Longrightarrow>
       treeSolution cr token totalRequired (tree + j) (treeBalances ! j) = Inr []) \<Longrightarrow>
   solutions_from cr token totalRequired tree (map Some treeBalances) =
     Inr (replicate (length treeBalances) (Some []))"
proof (induction treeBalances arbitrary: tree)
  case Nil
  then show ?case by simp
next
  case (Cons treeBalance treeBalances)
  from Cons.prems [of 0] have first:
    "treeSolution cr token totalRequired tree treeBalance = Inr []"
    by simp
  have "solutions_from cr token totalRequired (Suc tree) (map Some treeBalances) =
     Inr (replicate (length treeBalances) (Some []))"
  proof (rule Cons.IH)
    fix j
    assume "j < length treeBalances"
    with Cons.prems [of "Suc j"] show
      "treeSolution cr token totalRequired (Suc tree + j) (treeBalances ! j) = Inr []"
      by simp
  qed
  with first show ?case by simp
qed

lemma findIndex_from_none: "findIndex_from k (replicate n (Some [])) = Inr (- 1)"
  by (induction n arbitrary: k) simp_all

lemma findIndex_from_found:
  "findIndex_from k slots = Inr t \<Longrightarrow> t \<noteq> - 1 \<Longrightarrow>
   int k \<le> t \<and> nat t - k < length slots
   \<and> (\<exists>v. slots ! (nat t - k) = Some v \<and> v \<noteq> [])
   \<and> (\<forall>j < nat t - k. slots ! j = Some [])"
proof (induction slots arbitrary: k)
  case Nil
  then show ?case by simp
next
  case (Cons slot slots)
  show ?case
  proof (cases slot)
    case None
    with Cons.prems show ?thesis by simp
  next
    case (Some v)
    show ?thesis
    proof (cases "v = []")
      case False
      with Some Cons.prems show ?thesis by auto
    next
      case True
      with Some Cons.prems have "findIndex_from (Suc k) slots = Inr t"
        by simp
      from Cons.IH [OF this Cons.prems(2)] have
        le: "int (Suc k) \<le> t" and range: "nat t - Suc k < length slots"
        and hit: "\<exists>v. slots ! (nat t - Suc k) = Some v \<and> v \<noteq> []"
        and before: "\<forall>j < nat t - Suc k. slots ! j = Some []"
        by blast+
      from le have pos: "nat t - k = Suc (nat t - Suc k)"
        by linarith
      have "\<forall>j < nat t - k. (slot # slots) ! j = Some []"
      proof (intro allI impI)
        fix j
        assume "j < nat t - k"
        with pos before Some True show "(slot # slots) ! j = Some []"
          by (cases j) auto
      qed
      with le range hit pos show ?thesis
        by auto
    qed
  qed
qed

lemma chooseTree_first:
  assumes "pinned = None \<or> pinned = Some 0"
    and "chooseTree pinned solutions = Inr tree" "tree \<noteq> - 1"
  shows "\<exists>solution. array_get solutions tree = Some solution \<and> solution \<noteq> []
           \<and> (\<forall>j. 0 \<le> j \<and> j < tree \<longrightarrow> array_get solutions j = Some [])"
proof -
  from assms(1,2) have "findIndex_from 0 solutions = Inr tree"
    by (auto simp: chooseTree_def)
  from findIndex_from_found [OF this assms(3)] have
    le: "0 \<le> tree" and range: "nat tree < length solutions"
    and hit: "\<exists>v. solutions ! nat tree = Some v \<and> v \<noteq> []"
    and before: "\<forall>j < nat tree. solutions ! j = Some []"
    by auto
  have "array_get solutions j = Some []" if "0 \<le> j" "j < tree" for j
  proof -
    from that have "nat j < nat tree" by simp
    with before range that show ?thesis
      by (simp add: array_get_def)
  qed
  with le range hit show ?thesis
    by (auto simp: array_get_def)
qed

lemma treeSolution_over_large:
  assumes "accumulate totalRequired []
             (sort_key (\<lambda>utxo. - numberify (note_amount (txo_note utxo)))
                (tb_utxos treeBalance)) = Inr utxos"
    and "NOTE_INPUTS_large < length utxos"
  shows "treeSolution cr token totalRequired tree treeBalance = Inr []"
  using assms
  by (simp add: treeSolution_def NOTE_INPUTS_small_def NOTE_INPUTS_large_def)

lemma buildInputs_no_solution:
  assumes dense: "(case balancesByTree txos (tx_token tx) of
                     None \<Rightarrow> [] | Some byTree \<Rightarrow> byTree) = map Some treeBalances"
    and enough: "sumNotes (tx_outputs tx) + tx_withdraw tx - tx_deposit tx
                   \<le> sumBalances (map Some treeBalances)"
    and none: "\<And>k. k < length treeBalances \<Longrightarrow>
                 treeSolution cr (tx_token tx)
                   (sumNotes (tx_outputs tx) + tx_withdraw tx - tx_deposit tx) k
                   (treeBalances ! k) = Inr []"
    and unpinned: "tx_tree tx = None"
  shows "buildInputs cr w tx encKey txos = Inl NeedsConsolidation"
proof -
  let ?required = "sumNotes (tx_outputs tx) + tx_withdraw tx - tx_deposit tx"
  have sols: "solutions_from cr (tx_token tx) ?required 0 (map Some treeBalances) =
      Inr (replicate (length treeBalances) (Some []))"
    by (rule solutions_from_empty) (simp add: none)
  have tree: "chooseTree (tx_tree tx) (replicate (length treeBalances) (Some [])) = Inr (- 1)"
    by (simp add: chooseTree_def unpinned findIndex_from_none)
  show ?thesis
    unfolding buildInputs_def Let_def dense sols
    using enough by (simp add: tree)
qed

lemma generateInputs_no_solution:
  assumes "length (tx_outputs tx) \<le> 2"
    and "tokenMismatch (tx_token tx) 0 (tx_outputs tx) = None"
    and "TXOs cr w (tx_chainID tx) st = (st', Inr txos)"
    and "buildInputs cr w tx encKey txos = Inl NeedsConsolidation"
  shows "generateInputs cr w tx encKey st = (st', Inl NeedsConsolidation)"
  using assms by (simp add: generateInputs_def)

lemma demo_eleven_held:
  "TXOs demo_crypto (demo_wallet []) (tx_chainID (transfer 11 None))
     (state_with (eleven_notes 1)) = (state_with (eleven_notes 1), Inr (eleven_held 1))"
  by code_simp

lemma demo_eleven_balance:
  "(case balancesByTree (eleven_held 1) (tx_token (transfer 11 None)) of
      None \<Rightarrow> [] | Some byTree \<Rightarrow> byTree) = map Some [eleven_balance 1]"
  by code_simp

lemma demo_eleven_enough:
  "sumNotes (tx_outputs (transfer 11 None)) + tx_withdraw (transfer 11 None)
     - tx_deposit (transfer 11 None) \<le> sumBalances (map Some [eleven_balance 1])"
  by code_simp

lemma demo_eleven_selected:
  "accumulate 11 []
     (sort_key (\<lambda>utxo. - numberify (note_amount (txo_note utxo)))
        (tb_utxos (eleven_balance 1))) = Inr (eleven_held 1)"
  by code_simp

lemma demo_eleven_length: "NOTE_INPUTS_large < length (eleven_held 1)"
  by code_simp

lemma demo_eleven_solution:
  "treeSolution demo_crypto (tx_token (transfer 11 None))
     (sumNotes (tx_outputs (transfer 11 None)) + tx_withdraw (transfer 11 None)
        - tx_deposit (transfer 11 None)) 0 (eleven_balance 1) = Inr []"
  by code_simp

lemma demo_eleven_transfer:
  "tx_tree (transfer 11 None) = None"
  "length (tx_outputs (transfer 11 None)) \<le> 2"
  "tokenMismatch (tx_token (transfer 11 None)) 0 (tx_outputs (transfer 11 None)) = None"
  by code_simp+

lemma assembleInputs_tree:
  assumes "assembleInputs cr w tx encKey tree solution = Inr g"
  shows "treeNumber (gi_inputs g) = BN (int tree)"
  using assms unfolding assembleInputs_def Let_def
  by (auto simp: formatInputs_def split: sum.splits option.splits)

lemma generateInputs_unpinned:
  assumes gen: "generateInputs cr w tx encKey st = (st', Inr g)"
    and unpinned: "tx_tree tx = None"
  shows "\<exists>txos solutions tree solution.
      TXOs cr w (tx_chainID tx) st = (st', Inr txos)
    \<and> solutions_from cr (tx_token tx)
         (sumNotes (tx_outputs tx) + tx_withdraw tx - tx_deposit tx) 0
         (case balancesByTree txos (tx_token tx) of None \<Rightarrow> [] | Some byTree \<Rightarrow> byTree)
        = Inr solutions
    \<and> array_get solutions (int tree) = Some solution
    \<and> solution \<noteq> []
    \<and> (\<forall>j < tree. array_get solutions (int j) = Some [])
    \<and> treeNumber (gi_inputs g) = BN (int tree)
    \<and> valuesIn (gi_inputs g) = map (\<lambda>utxo. note_amount (txo_note utxo)) solution"
proof -
  from generateInputs_Inr [OF gen] obtain txos where
    t: "TXOs cr w (tx_chainID tx) st = (st', Inr txos)"
    and b: "buildInputs cr w tx encKey txos = Inr g"
    by blast
  from buildInputs_Inr [OF b] obtain solutions tree solution where
    s: "solutions_from cr (tx_token tx)
         (sumNotes (tx_outputs tx) + tx_withdraw tx - tx_deposit tx) 0
         (case balancesByTree txos (tx_token tx) of None \<Rightarrow> [] | Some byTree \<Rightarrow> byTree)
        = Inr solutions"
    and c: "chooseTree (tx_tree tx) solutions = Inr tree" and found: "tree \<noteq> - 1"
    and at_tree: "array_get solutions tree = Some solution"
    and a: "assembleInputs cr w tx encKey (nat tree) solution = Inr g"
    by blast
  from unpinned have "tx_tree tx = None \<or> tx_tree tx = Some 0"
    by simp
  from chooseTree_first [OF this c found] at_tree have
    nonempty: "solution \<noteq> []"
    and before: "\<forall>j. 0 \<le> j \<and> j < tree \<longrightarrow> array_get solutions j = Some []"
    by auto
  from at_tree have pos: "0 \<le> tree"
    by (auto simp: array_get_def split: if_splits)
  then have tree: "int (nat tree) = tree"
    by simp
  from before pos have "\<forall>j < nat tree. array_get solutions (int j) = Some []"
    by auto
  moreover from assembleInputs_fields [OF a] have
    "valuesIn (gi_inputs g) = map (\<lambda>utxo. note_amount (txo_note utxo)) solution"
    by blast
  moreover note assembleInputs_tree [OF a] t s nonempty
  moreover from at_tree tree have "array_get solutions (int (nat tree)) = Some solution"
    by simp
  ultimately show ?thesis
    by blast
qed

lemma generateInputs_pinned:
  assumes gen: "generateInputs cr w tx encKey st = (st', Inr g)"
    and pinned: "tx_tree tx = Some t" "t \<noteq> 0"
  shows "treeNumber (gi_inputs g) = BN (int t)"
proof -
  from generateInputs_Inr [OF gen] obtain txos where
    b: "buildInputs cr w tx encKey txos = Inr g"
    by blast
  from buildInputs_Inr [OF b] obtain solutions tree solution where
    c: "chooseTree (tx_tree tx) solutions = Inr tree"
    and a: "assembleInputs cr w tx encKey (nat tree) solution = Inr g"
    by blast
  from c pinned have "tree = int t"
    by (simp add: chooseTree_def)
  with assembleInputs_tree [OF a] show ?thesis
    by simp
qed

lemma demo_second_tree:
  "map_sum id (treeNumber \<circ> gi_inputs)
     (snd (generateInputs demo_crypto (demo_wallet []) (transfer 5 None) (Hex [1])
             (state_with [stored_note 0 0 1, stored_note 1 0 10]))) = Inr (BN 1)"
  by code_simp

lemma demo_pinned_tree:
  "map_sum id (treeNumber \<circ> gi_inputs)
     (snd (generateInputs demo_crypto (demo_wallet []) (transfer 5 (Some 1)) (Hex [1])
             (state_with [stored_note 0 0 10, stored_note 1 0 10]))) = Inr (BN 1)"
  by code_simp

lemma map_sum_Inr_snd:
  assumes "map_sum id f (snd r) = Inr v"
  shows "\<exists>st' g. r = (st', Inr g) \<and> f g = v"
proof (cases r)
  case (Pair st' res)
  with assms show ?thesis
    by (cases res) auto
qed

text \<open>
  C6, as amended. With no pinned tree, a successful \<open>generateInputs\<close> spends from the
  first tree that has a spending solution: the solutions of the trees before it are
  empty, its own is not, and the inputs are that solution. With a pinned tree other
  than tree 0, a successful \<open>generateInputs\<close> spends from the pinned tree. A tree
  whose selection by decreasing amount takes more than 10 outputs to reach the
  required amount has the empty solution. And with no pinned tree, when every tree
  with a balance has the empty solution (the trees numbered from 0 without a gap),
  \<open>generateInputs\<close> fails with the consolidation error although the total balance
  covers the required amount. Eleven notes each below the required amount are not
  such a case by themselves: the selection can reach the amount with a few of them.
\<close>

theorem first_solution_or_consolidation:
  "(generateInputs cr w tx encKey st = (st', Inr g) \<and> tx_tree tx = None \<longrightarrow>
      (\<exists>txos solutions tree solution.
          TXOs cr w (tx_chainID tx) st = (st', Inr txos)
        \<and> solutions_from cr (tx_token tx)
             (sumNotes (tx_outputs tx) + tx_withdraw tx - tx_deposit tx) 0
             (case balancesByTree txos (tx_token tx) of
                None \<Rightarrow> [] | Some byTree \<Rightarrow> byTree)
            = Inr solutions
        \<and> array_get solutions (int tree) = Some solution
        \<and> solution \<noteq> []
        \<and> (\<forall>j < tree. array_get solutions (int j) = Some [])
        \<and> treeNumber (gi_inputs g) = BN (int tree)
        \<and> valuesIn (gi_inputs g) = map (\<lambda>utxo. note_amount (txo_note utxo)) solution))
   \<and> (generateInputs cr w tx encKey st = (st', Inr g) \<and> tx_tree tx = Some t \<and> t \<noteq> 0 \<longrightarrow>
        treeNumber (gi_inputs g) = BN (int t))
   \<and> (accumulate totalRequired []
         (sort_key (\<lambda>utxo. - numberify (note_amount (txo_note utxo)))
            (tb_utxos treeBalance)) = Inr utxos
       \<and> NOTE_INPUTS_large < length utxos \<longrightarrow>
        treeSolution cr token totalRequired k treeBalance = Inr [])
   \<and> (tx_tree tx = None
       \<and> length (tx_outputs tx) \<le> 2
       \<and> tokenMismatch (tx_token tx) 0 (tx_outputs tx) = None
       \<and> TXOs cr w (tx_chainID tx) st = (st', Inr held)
       \<and> (case balancesByTree held (tx_token tx) of
             None \<Rightarrow> [] | Some byTree \<Rightarrow> byTree) = map Some treeBalances
       \<and> sumNotes (tx_outputs tx) + tx_withdraw tx - tx_deposit tx
             \<le> sumBalances (map Some treeBalances)
       \<and> (\<forall>i < length treeBalances.
             treeSolution cr (tx_token tx)
               (sumNotes (tx_outputs tx) + tx_withdraw tx - tx_deposit tx) i
               (treeBalances ! i) = Inr []) \<longrightarrow>
        generateInputs cr w tx encKey st = (st', Inl NeedsConsolidation))"
proof (intro conjI impI)
  assume "generateInputs cr w tx encKey st = (st', Inr g) \<and> tx_tree tx = None"
  then show "\<exists>txos solutions tree solution.
          TXOs cr w (tx_chainID tx) st = (st', Inr txos)
        \<and> solutions_from cr (tx_token tx)
             (sumNotes (tx_outputs tx) + tx_withdraw tx - tx_deposit tx) 0
             (case balancesByTree txos (tx_token tx) of
                None \<Rightarrow> [] | Some byTree \<Rightarrow> byTree)
            = Inr solutions
        \<and> array_get solutions (int tree) = Some solution
        \<and> solution \<noteq> []
        \<and> (\<forall>j < tree. array_get solutions (int j) = Some [])
        \<and> treeNumber (gi_inputs g) = BN (int tree)
        \<and> valuesIn (gi_inputs g) = map (\<lambda>utxo. note_amount (txo_note utxo)) solution"
    by (elim conjE) (rule generateInputs_unpinned)
next
  assume "generateInputs cr w tx encKey st = (st', Inr g) \<and> tx_tree tx = Some t \<and> t \<noteq> 0"
  then show "treeNumber (gi_inputs g) = BN (int t)"
    by (elim conjE) (rule generateInputs_pinned)
next
  assume "accumulate totalRequired []
         (sort_key (\<lambda>utxo. - numberify (note_amount (txo_note utxo)))
            (tb_utxos treeBalance)) = Inr utxos
       \<and> NOTE_INPUTS_large < length utxos"
  then show "treeSolution cr token totalRequired k treeBalance = Inr []"
    by (elim conjE) (rule treeSolution_over_large)
next
  assume a: "tx_tree tx = None
       \<and> length (tx_outputs tx) \<le> 2
       \<and> tokenMismatch (tx_token tx) 0 (tx_outputs tx) = None
       \<and> TXOs cr w (tx_chainID tx) st = (st', Inr held)
       \<and> (case balancesByTree held (tx_token tx) of
             None \<Rightarrow> [] | Some byTree \<Rightarrow> byTree) = map Some treeBalances
       \<and> sumNotes (tx_outputs tx) + tx_withdraw tx - tx_deposit tx
             \<le> sumBalances (map Some treeBalances)
       \<and> (\<forall>i < length treeBalances.
             treeSolution cr (tx_token tx)
               (sumNotes (tx_outputs tx) + tx_withdraw tx - tx_deposit tx) i
               (treeBalances ! i) = Inr [])"
  then have "buildInputs cr w tx encKey held = Inl NeedsConsolidation"
    by (intro buildInputs_no_solution [where treeBalances = treeBalances]) simp_all
  with a show "generateInputs cr w tx encKey st = (st', Inl NeedsConsolidation)"
    by (intro generateInputs_no_solution) simp_all
qed


theorem first_solution_or_consolidation_witness:
  "(\<exists>st' g. generateInputs demo_crypto (demo_wallet []) (transfer 5 None) (Hex [1])
               (state_with [stored_note 0 0 1, stored_note 1 0 10]) = (st', Inr g)
       \<and> treeNumber (gi_inputs g) = BN 1 \<and> valuesIn (gi_inputs g) \<noteq> [])
   \<and> (\<exists>st' g. generateInputs demo_crypto (demo_wallet []) (transfer 5 (Some 1)) (Hex [1])
               (state_with [stored_note 0 0 10, stored_note 1 0 10]) = (st', Inr g)
       \<and> treeNumber (gi_inputs g) = BN (int 1))
   \<and> treeSolution demo_crypto [1] 11 0 (eleven_balance 1) = Inr []
   \<and> generateInputs demo_crypto (demo_wallet []) (transfer 11 None) (Hex [1])
       (state_with (eleven_notes 1)) = (state_with (eleven_notes 1), Inl NeedsConsolidation)"
proof -
  from map_sum_Inr_snd [OF demo_second_tree] obtain st1 g1 where
    gen1: "generateInputs demo_crypto (demo_wallet []) (transfer 5 None) (Hex [1])
             (state_with [stored_note 0 0 1, stored_note 1 0 10]) = (st1, Inr g1)"
    and tree1: "treeNumber (gi_inputs g1) = BN 1"
    by auto
  have unpinned: "tx_tree (transfer 5 None) = None"
    by (simp add: transfer_def)
  note t1 = first_solution_or_consolidation
    [where cr = demo_crypto and w = "demo_wallet []" and tx = "transfer 5 None"
       and encKey = "Hex [1]" and st = "state_with [stored_note 0 0 1, stored_note 1 0 10]"
       and st' = st1 and g = g1]
  from mp [OF conjunct1 [OF t1]] gen1 unpinned have "valuesIn (gi_inputs g1) \<noteq> []"
    by auto
  with gen1 tree1 have w1:
    "\<exists>st' g. generateInputs demo_crypto (demo_wallet []) (transfer 5 None) (Hex [1])
               (state_with [stored_note 0 0 1, stored_note 1 0 10]) = (st', Inr g)
       \<and> treeNumber (gi_inputs g) = BN 1 \<and> valuesIn (gi_inputs g) \<noteq> []"
    by blast
  from map_sum_Inr_snd [OF demo_pinned_tree] obtain st2 g2 where
    gen2: "generateInputs demo_crypto (demo_wallet []) (transfer 5 (Some 1)) (Hex [1])
             (state_with [stored_note 0 0 10, stored_note 1 0 10]) = (st2, Inr g2)"
    by auto
  have pinned: "tx_tree (transfer 5 (Some 1)) = Some 1"
    by (simp add: transfer_def)
  note t2 = first_solution_or_consolidation
    [where cr = demo_crypto and w = "demo_wallet []" and tx = "transfer 5 (Some 1)"
       and encKey = "Hex [1]" and st = "state_with [stored_note 0 0 10, stored_note 1 0 10]"
       and st' = st2 and g = g2 and t = 1]
  from mp [OF conjunct1 [OF conjunct2 [OF t2]]] gen2 pinned
  have "treeNumber (gi_inputs g2) = BN (int 1)"
    by simp
  with gen2 have w2:
    "\<exists>st' g. generateInputs demo_crypto (demo_wallet []) (transfer 5 (Some 1)) (Hex [1])
               (state_with [stored_note 0 0 10, stored_note 1 0 10]) = (st', Inr g)
       \<and> treeNumber (gi_inputs g) = BN (int 1)"
    by blast
  note t3 = first_solution_or_consolidation
    [where totalRequired = 11 and treeBalance = "eleven_balance 1"
       and utxos = "eleven_held 1" and cr = demo_crypto and token = "[1]" and k = 0]
  from mp [OF conjunct1 [OF conjunct2 [OF conjunct2 [OF t3]]]]
    demo_eleven_selected demo_eleven_length
  have w3: "treeSolution demo_crypto [1] 11 0 (eleven_balance 1) = Inr []"
    by blast
  note t4 = first_solution_or_consolidation
    [where cr = demo_crypto and w = "demo_wallet []" and tx = "transfer 11 None"
       and encKey = "Hex [1]" and st = "state_with (eleven_notes 1)"
       and st' = "state_with (eleven_notes 1)" and held = "eleven_held 1"
       and treeBalances = "[eleven_balance 1]"]
  have none: "\<forall>i < length [eleven_balance 1].
      treeSolution demo_crypto (tx_token (transfer 11 None))
        (sumNotes (tx_outputs (transfer 11 None)) + tx_withdraw (transfer 11 None)
           - tx_deposit (transfer 11 None)) i ([eleven_balance 1] ! i) = Inr []"
    using demo_eleven_solution by simp
  from mp [OF conjunct2 [OF conjunct2 [OF conjunct2 [OF t4]]]]
    demo_eleven_transfer demo_eleven_held demo_eleven_balance demo_eleven_enough none
  have w4: "generateInputs demo_crypto (demo_wallet []) (transfer 11 None) (Hex [1])
       (state_with (eleven_notes 1)) = (state_with (eleven_notes 1), Inl NeedsConsolidation)"
    by blast
  from w1 w2 w3 w4 show ?thesis
    by blast
qed

text \<open>
  C6, the claim as stated fails: the wallet holds eleven unspent notes of amount 6 in
  tree 0, each below the required amount 10, and \<open>generateInputs\<close> succeeds, spending
  two of them and returning the change 2.
\<close>

theorem eleven_notes_below_required_counterexample:
  "snd (TXOs demo_crypto (demo_wallet []) 1 (state_with (eleven_notes 6))) =
     Inr (eleven_held 6)
   \<and> length (eleven_held 6) = 11
   \<and> map_sum id (valuesIn \<circ> gi_inputs)
       (snd (generateInputs demo_crypto (demo_wallet []) (transfer 10 None) (Hex [1])
               (state_with (eleven_notes 6)))) = Inr [Hex [6], Hex [6]]
   \<and> map_sum id (valuesOut \<circ> gi_inputs)
       (snd (generateInputs demo_crypto (demo_wallet []) (transfer 10 None) (Hex [1])
               (state_with (eleven_notes 6)))) = Inr [Hex [10], BN 2, BN 0]"
  by code_simp

section \<open>The number of inputs\<close>

lemma array_get_member: "array_get xs i = Some v \<Longrightarrow> Some v \<in> set xs"
  by (metis array_get_def nth_mem option.distinct(1))

text \<open>
  The inputs of a successful \<open>generateInputs\<close> are one solution of the map over the
  trees: their six arrays have its length, which is 2 or 10 when the tree was found
  by \<open>findIndex\<close>, and can be 0 when the tree was pinned.
\<close>

lemma generateInputs_input_counts:
  assumes gen: "generateInputs cr w tx encKey st = (st', Inr g)"
  shows "length (spendingKeys (gi_inputs g)) = length (nullifiers (gi_inputs g))"
    and "length (pathElements (gi_inputs g)) = length (nullifiers (gi_inputs g))"
    and "length (pathIndices (gi_inputs g)) = length (nullifiers (gi_inputs g))"
    and "length (randomIn (gi_inputs g)) = length (nullifiers (gi_inputs g))"
    and "length (valuesIn (gi_inputs g)) = length (nullifiers (gi_inputs g))"
    and "length (nullifiers (gi_inputs g)) = 0 \<or> length (nullifiers (gi_inputs g)) = 2
           \<or> length (nullifiers (gi_inputs g)) = 10"
    and "tx_tree tx = None \<or> tx_tree tx = Some 0 \<Longrightarrow>
           length (nullifiers (gi_inputs g)) = 2 \<or> length (nullifiers (gi_inputs g)) = 10"
proof -
  from generateInputs_Inr [OF gen] obtain txos where
    b: "buildInputs cr w tx encKey txos = Inr g"
    by blast
  from buildInputs_Inr [OF b] obtain solutions tree solution where
    s: "solutions_from cr (tx_token tx)
         (sumNotes (tx_outputs tx) + tx_withdraw tx - tx_deposit tx) 0
         (case balancesByTree txos (tx_token tx) of None \<Rightarrow> [] | Some byTree \<Rightarrow> byTree)
        = Inr solutions"
    and c: "chooseTree (tx_tree tx) solutions = Inr tree" and found: "tree \<noteq> - 1"
    and at_tree: "array_get solutions tree = Some solution"
    and a: "assembleInputs cr w tx encKey (nat tree) solution = Inr g"
    by blast
  from assembleInputs_fields [OF a] obtain vals where
    v: "spendValues cr w encKey (tx_chainID tx) (nat tree) solution = Inr vals"
    and fields: "nullifiers (gi_inputs g) = sv_nullifiers vals"
      "spendingKeys (gi_inputs g) = sv_spendingKeys vals"
      "pathElements (gi_inputs g) = sv_pathElements vals"
      "pathIndices (gi_inputs g) = sv_pathIndices vals"
      "randomIn (gi_inputs g) = map (\<lambda>utxo. Hex (note_random (txo_note utxo))) solution"
      "valuesIn (gi_inputs g) = map (\<lambda>utxo. note_amount (txo_note utxo)) solution"
    by blast
  from spendValues_lengths [OF v] fields have
    n: "length (nullifiers (gi_inputs g)) = length solution"
    and "length (spendingKeys (gi_inputs g)) = length solution"
    and "length (pathElements (gi_inputs g)) = length solution"
    and "length (pathIndices (gi_inputs g)) = length solution"
    and "length (randomIn (gi_inputs g)) = length solution"
    and "length (valuesIn (gi_inputs g)) = length solution"
    by simp_all
  then show "length (spendingKeys (gi_inputs g)) = length (nullifiers (gi_inputs g))"
    and "length (pathElements (gi_inputs g)) = length (nullifiers (gi_inputs g))"
    and "length (pathIndices (gi_inputs g)) = length (nullifiers (gi_inputs g))"
    and "length (randomIn (gi_inputs g)) = length (nullifiers (gi_inputs g))"
    and "length (valuesIn (gi_inputs g)) = length (nullifiers (gi_inputs g))"
    by simp_all
  from solutions_from_lengths [OF s array_get_member [OF at_tree]]
  have sizes: "length solution = 0 \<or> length solution = 2 \<or> length solution = 10" .
  with n show "length (nullifiers (gi_inputs g)) = 0 \<or> length (nullifiers (gi_inputs g)) = 2
           \<or> length (nullifiers (gi_inputs g)) = 10"
    by simp
  show "length (nullifiers (gi_inputs g)) = 2 \<or> length (nullifiers (gi_inputs g)) = 10"
    if "tx_tree tx = None \<or> tx_tree tx = Some 0"
  proof -
    from chooseTree_first [OF that c found] at_tree have "solution \<noteq> []"
      by auto
    with sizes n show ?thesis
      by simp
  qed
qed

text \<open>
  C3. Every successful \<open>generateInputs\<close> is to return 2 or 10 inputs. The code does
  not when the caller pins a tree other than tree 0 that has no spending solution:
  the pinned tree is taken before \<open>findIndex\<close> is asked, the check for \<open>-1\<close> passes,
  and the empty solution of the tree is assembled. With a note of 10 in tree 0 and a
  note of 1 in tree 1, a transfer of 5 pinned to tree 1 returns no input at all, a
  change of \<open>-5\<close> and three outputs, and \<open>prove\<close> would hand it to the large circuit;
  the same transfer without a pinned tree returns two inputs from tree 0.
\<close>

theorem pinned_tree_without_solution:
  "map_sum id (length \<circ> nullifiers \<circ> gi_inputs)
     (snd (generateInputs demo_crypto (demo_wallet []) (transfer 5 (Some 1)) (Hex [1])
             (state_with [stored_note 0 0 10, stored_note 1 0 1]))) = Inr 0
   \<and> map_sum id (valuesIn \<circ> gi_inputs)
     (snd (generateInputs demo_crypto (demo_wallet []) (transfer 5 (Some 1)) (Hex [1])
             (state_with [stored_note 0 0 10, stored_note 1 0 1]))) = Inr []
   \<and> map_sum id (valuesOut \<circ> gi_inputs)
     (snd (generateInputs demo_crypto (demo_wallet []) (transfer 5 (Some 1)) (Hex [1])
             (state_with [stored_note 0 0 10, stored_note 1 0 1])))
       = Inr [Hex [5], BN (- 5), BN 0]
   \<and> map_sum id (treeNumber \<circ> gi_inputs)
     (snd (generateInputs demo_crypto (demo_wallet []) (transfer 5 (Some 1)) (Hex [1])
             (state_with [stored_note 0 0 10, stored_note 1 0 1]))) = Inr (BN 1)
   \<and> map_sum id (circuitFor \<circ> gi_inputs)
     (snd (generateInputs demo_crypto (demo_wallet []) (transfer 5 (Some 1)) (Hex [1])
             (state_with [stored_note 0 0 10, stored_note 1 0 1]))) = Inr erc20large
   \<and> map_sum id (valuesIn \<circ> gi_inputs)
     (snd (generateInputs demo_crypto (demo_wallet []) (transfer 5 None) (Hex [1])
             (state_with [stored_note 0 0 10, stored_note 1 0 1])))
       = Inr [Hex [10], Hex [0]]"
  by code_simp

end
